theory Spec2Isabelle
  imports Main "HOL-Library.AList" "HOL-Library.Monad_Syntax" "HOL-Library.Char_ord"
    "HOL-Library.List_Lexorder" "HOL-Library.Sublist"
begin

section \<open>Python values\<close>

text \<open>
  The page parser of \<^verbatim>\<open>wiktextract/newpage.py\<close> builds its output from
  Python dictionaries, lists and strings. A dictionary is an association list in
  insertion order (the order Python iterates it in); \<^const>\<open>AList.update\<close> keeps
  the position of a key that is already present and puts a new key last, as a Python
  assignment \<^verbatim>\<open>d[k] = v\<close> does. A Python exception is the result
  \<^const>\<open>None\<close>.
\<close>

datatype val =
    VNone
  | VBool bool
  | VInt int
  | VStr string
  | VList "val list"
  | VTuple "val list"
  | VDict "(val \<times> val) list"

type_synonym pdict = "(val \<times> val) list"

definition py_num :: "val \<Rightarrow> int option" where
  "py_num v = (case v of VBool b \<Rightarrow> Some (if b then 1 else 0) | VInt i \<Rightarrow> Some i | _ \<Rightarrow> None)"

text \<open>Python's \<^verbatim>\<open>==\<close>: numbers by value (\<^verbatim>\<open>True == 1\<close>), sequences
  element by element, dictionaries key by key whatever the insertion order.\<close>

primrec py_eq :: "val \<Rightarrow> val \<Rightarrow> bool" where
  "py_eq VNone w = (w = VNone)"
| "py_eq (VBool b) w = (py_num w = Some (if b then 1 else 0))"
| "py_eq (VInt i) w = (py_num w = Some i)"
| "py_eq (VStr s) w = (w = VStr s)"
| "py_eq (VList xs) w =
     (case w of VList ys \<Rightarrow> list_all2 (\<lambda>f y. f y) (map py_eq xs) ys | _ \<Rightarrow> False)"
| "py_eq (VTuple xs) w =
     (case w of VTuple ys \<Rightarrow> list_all2 (\<lambda>f y. f y) (map py_eq xs) ys | _ \<Rightarrow> False)"
| "py_eq (VDict kvs) w =
     (case w of VDict kws \<Rightarrow>
        length kvs = length kws \<and>
        list_all (\<lambda>(k, f). case map_of kws k of None \<Rightarrow> False | Some y \<Rightarrow> f y)
                 (map (map_prod id py_eq) kvs)
      | _ \<Rightarrow> False)"

text \<open>Python's truth value of an object (\<^verbatim>\<open>if x:\<close>).\<close>

definition py_truthy :: "val \<Rightarrow> bool" where
  "py_truthy v = (case v of VNone \<Rightarrow> False | VBool b \<Rightarrow> b | VInt i \<Rightarrow> i \<noteq> 0
     | VStr s \<Rightarrow> s \<noteq> [] | VList xs \<Rightarrow> xs \<noteq> [] | VTuple xs \<Rightarrow> xs \<noteq> []
     | VDict d \<Rightarrow> d \<noteq> [])"

text \<open>What \<^verbatim>\<open>list.extend(v)\<close> iterates over: the elements of a sequence, the
  one-character strings of a string, the keys of a dictionary; anything else raises
  \<^verbatim>\<open>TypeError\<close>.\<close>

definition py_iter :: "val \<Rightarrow> val list option" where
  "py_iter v = (case v of VList xs \<Rightarrow> Some xs | VTuple xs \<Rightarrow> Some xs
     | VStr s \<Rightarrow> Some (map (\<lambda>c. VStr [c]) s) | VDict d \<Rightarrow> Some (map fst d)
     | _ \<Rightarrow> None)"

definition is_list :: "val \<Rightarrow> bool" where
  "is_list v = (case v of VList xs \<Rightarrow> True | _ \<Rightarrow> False)"

definition dget :: "pdict \<Rightarrow> string \<Rightarrow> val option" where
  "dget d k = map_of d (VStr k)"

definition dset :: "pdict \<Rightarrow> string \<Rightarrow> val \<Rightarrow> pdict" where
  "dset d k v = AList.update (VStr k) v d"

text \<open>Modelled from the spec: \<^verbatim>\<open>datautils.data_append\<close> and
  \<^verbatim>\<open>datautils.data_extend\<close> are imported by the parser and are not part of its
  source file. Section 4.2 has every extractor "accumulate results into the active scope's
  staging buffer" and section 3 makes the accumulated fields ordered sequences: appending
  puts the value at the end of the list stored under the key, creating the list when the
  key is absent. A value that is not a list has no \<^verbatim>\<open>append\<close> and raises; the
  fields these extractors append to only ever hold lists, so the model lets a stray
  scalar be replaced by the list of the appended value.\<close>

definition data_append :: "pdict \<Rightarrow> string \<Rightarrow> val \<Rightarrow> pdict" where
  "data_append d k v =
     dset d k (VList ((case dget d k of Some (VList xs) \<Rightarrow> xs | _ \<Rightarrow> []) @ [v]))"

definition data_extend :: "pdict \<Rightarrow> string \<Rightarrow> val list \<Rightarrow> pdict" where
  "data_extend d k vs = fold (\<lambda>v d. data_append d k v) vs d"

section \<open>Strings and templates\<close>

text \<open>A character of a string stands for a code point below 256; text with other code
  points is outside the model. \<^verbatim>\<open>str.strip()\<close> and the class \<^verbatim>\<open>\s\<close> remove
  the characters for which \<^verbatim>\<open>str.isspace\<close> holds: below 256 these are the space,
  U+0009 to U+000D, U+001C to U+001F, U+0085 and U+00A0.\<close>

definition is_space :: "char \<Rightarrow> bool" where
  "is_space c = (c \<in> set [CHR '' '', CHR 0x09, CHR 0x0A, CHR 0x0B, CHR 0x0C, CHR 0x0D,
                            CHR 0x1C, CHR 0x1D, CHR 0x1E, CHR 0x1F, CHR 0x85, CHR 0xA0])"

definition lstrip :: "string \<Rightarrow> string" where
  "lstrip s = dropWhile is_space s"

definition rstrip :: "string \<Rightarrow> string" where
  "rstrip s = rev (dropWhile is_space (rev s))"

definition strip :: "string \<Rightarrow> string" where
  "strip s = rstrip (lstrip s)"

definition startswith :: "string \<Rightarrow> string \<Rightarrow> bool" where
  "startswith s p = (take (length p) s = p)"

definition endswith :: "string \<Rightarrow> string \<Rightarrow> bool" where
  "endswith s p = (length p \<le> length s \<and> drop (length s - length p) s = p)"

text \<open>A template invocation as \<^verbatim>\<open>wikitextparser\<close> hands it over: its name and
  its arguments in source order, a positional argument named by its number. The external
  \<^verbatim>\<open>clean.clean_value\<close> is the parameter \<open>cv\<close> of the functions that clean an
  argument.\<close>

record template =
  tname :: string
  targs :: "(string \<times> string) list"

text \<open>\<^verbatim>\<open>Template.get_arg\<close> returns the last argument of that name.\<close>

definition get_arg :: "template \<Rightarrow> string \<Rightarrow> string option" where
  "get_arg t k = map_option snd (find (\<lambda>(n, v). strip n = strip k) (rev (targs t)))"

definition t_arg :: "(string \<Rightarrow> string) \<Rightarrow> template \<Rightarrow> string \<Rightarrow> string" where
  "t_arg cv t k = (case get_arg t k of None \<Rightarrow> [] | Some v \<Rightarrow> cv v)"

text \<open>\<^verbatim>\<open>str(i)\<close> for the argument numbers \<^verbatim>\<open>range(1, 20)\<close>.\<close>

definition str_int :: "nat \<Rightarrow> string" where
  "str_int i = (if i < 10 then [''0123456789'' ! i]
                else [''0123456789'' ! (i div 10), ''0123456789'' ! (i mod 10)])"

definition positional_names :: "string list" where
  "positional_names =
     map str_int [1, 2, 3, 4, 5, 6, 7, 8, 9, 10, 11, 12, 13, 14, 15, 16, 17, 18, 19]"

definition pop_empty :: "string list \<Rightarrow> string list" where
  "pop_empty vec = rev (dropWhile (\<lambda>v. v = []) (rev vec))"

definition t_vec :: "(string \<Rightarrow> string) \<Rightarrow> template \<Rightarrow> string list" where
  "t_vec cv t = pop_empty (map (t_arg cv t) positional_names)"

definition t_dict :: "(string \<Rightarrow> string) \<Rightarrow> template \<Rightarrow> pdict" where
  "t_dict cv t =
     dset (fold (\<lambda>(n, v) ht. dset ht (strip n) (VStr (cv v))) (targs t) [])
          ''template_name'' (VStr (strip (tname t)))"

section \<open>The colour panel of a sense\<close>

text \<open>The two patterns of the \<^verbatim>\<open>color panel\<close> branch of
  \<^verbatim>\<open>parse_sense\<close>. Python's \<^verbatim>\<open>$\<close> matches at the end of the string and
  also before a newline that ends it.\<close>

definition is_hex :: "char \<Rightarrow> bool" where
  "is_hex c = (c \<in> set ''0123456789ABCDEFabcdef'')"

definition at_end :: "string \<Rightarrow> bool" where
  "at_end s = (s = [] \<or> s = [CHR 0x0A])"

definition match_hex6 :: "string \<Rightarrow> bool" where
  "match_hex6 v = (6 \<le> length v \<and> list_all is_hex (take 6 v) \<and> at_end (drop 6 v))"

definition match_hex3 :: "string \<Rightarrow> bool" where
  "match_hex3 v = (3 \<le> length v \<and> list_all is_hex (take 3 v) \<and> at_end (drop 3 v))"

definition color_value :: "string \<Rightarrow> string" where
  "color_value v =
     (if match_hex6 v then CHR ''#'' # v
      else if match_hex3 v then
        CHR ''#'' # [v ! 0, v ! 0, v ! 1, v ! 1, v ! 2, v ! 2]
      else v)"

definition color_panel :: "(string \<Rightarrow> string) \<Rightarrow> pdict \<Rightarrow> template \<Rightarrow> pdict" where
  "color_panel cv data t =
     fold (\<lambda>v d. data_append d ''color'' (VStr (color_value v))) (t_vec cv t) data"

text \<open>The expansion of three digits \<open>rgb\<close> to \<open>rrggbb\<close>, for stating the property.\<close>

definition doubled :: "string \<Rightarrow> string" where
  "doubled v = concat (map (\<lambda>c. [c, c]) v)"

section \<open>Merging a scope into its parent\<close>

text \<open>The diagnostics the parser sends to its context: warnings, errors and debug
  messages (with the message text of the source), the warning of a merge conflict, and the
  two counters of unknown argument values and unrecognised templates.\<close>

datatype diag =
    ConflictingValues val val val
  | Warning string
  | Error string
  | Debug string
  | UnknownValue string string
  | UnrecognizedTemplate string string

text \<open>\<^verbatim>\<open>merge_base(data, base)\<close>, one key of \<open>base\<close> at a time. The result is
  the child dictionary and the warnings raised so far.\<close>

definition merge_key :: "val \<times> val \<Rightarrow> pdict \<times> diag list \<Rightarrow> (pdict \<times> diag list) option" where
  "merge_key kv st =
     (case kv of (k, v) \<Rightarrow> case st of (data, ws) \<Rightarrow>
        (case map_of data k of
           None \<Rightarrow> Some (AList.update k v data, ws)
         | Some (VList xs) \<Rightarrow>
             (case py_iter v of
                None \<Rightarrow> None
              | Some ys \<Rightarrow> Some (AList.update k (VList (xs @ ys)) data, ws))
         | Some x \<Rightarrow>
             Some (data, if py_eq x v then ws else ws @ [ConflictingValues k x v])))"

fun merge_items :: "pdict \<Rightarrow> pdict \<times> diag list \<Rightarrow> (pdict \<times> diag list) option" where
  "merge_items [] st = Some st"
| "merge_items (kv # base) st =
     (case merge_key kv st of None \<Rightarrow> None | Some st' \<Rightarrow> merge_items base st')"

definition merge_base :: "pdict \<Rightarrow> pdict \<Rightarrow> (pdict \<times> diag list) option" where
  "merge_base data base = merge_items base (data, [])"

text \<open>For stating what a merge does: the value of a key of the parent after the merge,
  from the value the child had for it, and the warnings of a merge in the order the parent
  lists its keys.\<close>

definition merged_value :: "val option \<Rightarrow> val \<Rightarrow> val" where
  "merged_value old v =
     (case old of None \<Rightarrow> v
      | Some (VList xs) \<Rightarrow> VList (xs @ (case py_iter v of Some ys \<Rightarrow> ys | None \<Rightarrow> []))
      | Some x \<Rightarrow> x)"

definition merge_conflicts :: "pdict \<Rightarrow> pdict \<Rightarrow> diag list" where
  "merge_conflicts data base =
     concat (map (\<lambda>(k, v). case map_of data k of
                      None \<Rightarrow> []
                    | Some x \<Rightarrow>
                        if \<not> is_list x \<and> \<not> py_eq x v then [ConflictingValues k x v] else [])
                 base)"

section \<open>Linkage edges of one section\<close>

fun contains :: "string \<Rightarrow> string \<Rightarrow> bool" where
  "contains [] p = (p = [])"
| "contains (c # s) p = (startswith (c # s) p \<or> contains s p)"

definition lower_char :: "char \<Rightarrow> char" where
  "lower_char c =
     (if (CHR ''A'' \<le> c \<and> c \<le> CHR ''Z'')
         \<or> (CHR 0xC0 \<le> c \<and> c \<le> CHR 0xDE \<and> c \<noteq> CHR 0xD7)
      then char_of (of_char c + (32::nat)) else c)"

text \<open>\<^verbatim>\<open>str.lower\<close>: below 256 the capital letters are A to Z and U+00C0 to U+00DE
  without the multiplication sign U+00D7, each 32 below its small letter.\<close>

definition lower :: "string \<Rightarrow> string" where
  "lower s = map lower_char s"

text \<open>The word an edge is stored under: \<^verbatim>\<open>add_linkage\<close> up to the test
  \<^verbatim>\<open>v in ("", "en")\<close>, with \<^const>\<open>None\<close> where it returns without adding.\<close>

definition link_word :: "string \<Rightarrow> string option" where
  "link_word v0 =
     (let v = strip v0 in
      if startswith v ''See also'' then None
      else if contains v '' Thesaurus:'' then None
      else if lower v = ''see also'' then None
      else if startswith v ''Category:'' then None
      else
        let v1 = (if startswith v '':Category:'' then drop 1 v
                  else if startswith v ''See '' then drop 4 v else v);
            v2 = (if endswith v1 ''.'' then butlast v1 else v1);
            v3 = strip v2
        in if v3 = [] \<or> v3 = ''en'' then None else Some v3)"

type_synonym link_key = "string \<times> string \<times> string option \<times> string list"

definition link_edge :: "string \<Rightarrow> string option \<Rightarrow> string list \<Rightarrow> val" where
  "link_edge v sense_text quals =
     VDict ([(VStr ''word'', VStr v)]
            @ (case sense_text of Some s \<Rightarrow> if s \<noteq> [] then [(VStr ''sense'', VStr s)] else []
               | None \<Rightarrow> [])
            @ (if quals \<noteq> [] then [(VStr ''tags'', VList (map VStr quals))] else []))"

text \<open>The variables \<^verbatim>\<open>add_linkage\<close> shares with its callers: the set
  \<^verbatim>\<open>added\<close> and the dictionary \<^verbatim>\<open>data\<close> of \<^verbatim>\<open>parse_linkage\<close>, and the
  \<^verbatim>\<open>qualifiers\<close> of \<^verbatim>\<open>parse_item\<close>, which it resets. The sense text of
  \<^verbatim>\<open>parse_item\<close> is only read and is an argument.\<close>

record link_state =
  added :: "link_key set"
  ldata :: pdict
  qualifiers :: "string list"

definition add_linkage :: "string option \<Rightarrow> string \<Rightarrow> string \<Rightarrow> link_state \<Rightarrow> link_state" where
  "add_linkage sense_text kind v0 st =
     (case link_word v0 of
        None \<Rightarrow> st
      | Some v \<Rightarrow>
          let key = (kind, v, sense_text, sort (qualifiers st)) in
          if key \<in> added st then st
          else st\<lparr>added := insert key (added st),
                  ldata := data_append (ldata st) kind (link_edge v sense_text (qualifiers st)),
                  qualifiers := []\<rparr>)"

text \<open>One call of \<^verbatim>\<open>add_linkage\<close> as its caller makes it: the sense text and the
  qualifiers in force at the call, the kind and the word. Whatever templates a section
  holds, \<^verbatim>\<open>parse_item\<close> turns them into such calls, all on the one set
  \<^verbatim>\<open>added\<close> that \<^verbatim>\<open>parse_linkage\<close> creates empty.\<close>

record link_call =
  c_sense :: "string option"
  c_quals :: "string list"
  c_kind :: string
  c_word :: string

definition add_call :: "link_call \<Rightarrow> link_key set \<times> pdict \<Rightarrow> link_key set \<times> pdict" where
  "add_call c st =
     (let st' = add_linkage (c_sense c) (c_kind c) (c_word c)
                  \<lparr>added = fst st, ldata = snd st, qualifiers = c_quals c\<rparr>
      in (added st', ldata st'))"

definition parse_linkage_calls :: "link_call list \<Rightarrow> pdict \<Rightarrow> pdict" where
  "parse_linkage_calls cs data = snd (fold add_call cs ({}, data))"

text \<open>For stating the property: the identity of the edge a call asks for, the edge
  itself, and the calls of a sequence that ask for an identity not asked for before.\<close>

definition call_key :: "link_call \<Rightarrow> link_key option" where
  "call_key c = map_option (\<lambda>v. (c_kind c, v, c_sense c, sort (c_quals c))) (link_word (c_word c))"

definition call_edge :: "link_call \<Rightarrow> val" where
  "call_edge c = link_edge (the (link_word (c_word c))) (c_sense c) (c_quals c)"

fun first_requests :: "link_key set \<Rightarrow> link_call list \<Rightarrow> link_call list" where
  "first_requests A [] = []"
| "first_requests A (c # cs) =
     (case call_key c of
        None \<Rightarrow> first_requests A cs
      | Some k \<Rightarrow> if k \<in> A then first_requests A cs else c # first_requests (insert k A) cs)"

text \<open>The list a dictionary holds under a key, empty when it holds none.\<close>

definition field_list :: "pdict \<Rightarrow> string \<Rightarrow> val list" where
  "field_list d k = (case dget d k of Some (VList xs) \<Rightarrow> xs | _ \<Rightarrow> [])"

section \<open>Information found in any section\<close>

text \<open>The part of \<^verbatim>\<open>WiktionaryConfig\<close> the parser reads.\<close>

record config =
  capture_translations :: bool
  capture_pronunciation :: bool
  capture_compounds :: bool
  word :: string

text \<open>\<^verbatim>\<open>^(([^/]+)/translations)(#(.*))?$\<close> on the target of a section link:
  the page, the word and the section.\<close>

definition match_translations_link :: "string \<Rightarrow> (string \<times> string \<times> string option) option" where
  "match_translations_link target =
     (let w = takeWhile (\<lambda>c. c \<noteq> CHR ''/'') target;
          rest0 = drop (length w) target;
          rest = drop 13 rest0;
          tpage = w @ ''/translations''
      in if w = [] \<or> \<not> startswith rest0 ''/translations'' then None
         else if at_end rest then Some (tpage, w, None)
         else (case rest of
                 c # r \<Rightarrow>
                   if c \<noteq> CHR ''#'' then None
                   else
                     let r0 = (if r \<noteq> [] \<and> last r = CHR 0x0A then butlast r else r)
                     in if CHR 0x0A \<in> set r0 then None else Some (tpage, w, Some r0)
               | [] \<Rightarrow> None))"

definition is_lower_az :: "char \<Rightarrow> bool" where
  "is_lower_az c = (CHR ''a'' \<le> c \<and> c \<le> CHR ''z'')"

text \<open>\<^verbatim>\<open>^[a-z][a-z][a-z]?-(conj|decl|infl|conjugation|declension|inflection)($|-)\<close>
  on a template name.\<close>

definition conj_words :: "string list" where
  "conj_words = [''conj'', ''decl'', ''infl'', ''conjugation'', ''declension'', ''inflection'']"

definition match_conj_at :: "nat \<Rightarrow> string \<Rightarrow> bool" where
  "match_conj_at n name =
     (n < length name \<and> list_all is_lower_az (take n name) \<and> name ! n = CHR ''-''
      \<and> list_ex (\<lambda>w. startswith (drop (Suc n) name) w
                    \<and> (let r = drop (Suc n + length w) name
                       in at_end r \<or> startswith r ''-''))
                 conj_words)"

definition match_conj :: "string \<Rightarrow> bool" where
  "match_conj name = (match_conj_at 3 name \<or> match_conj_at 2 name)"

text \<open>The local variables of \<^verbatim>\<open>parse_any\<close> that live across the templates of
  the loop: the dictionary written to, \<^verbatim>\<open>translation_sense\<close>, and \<^verbatim>\<open>brk\<close>,
  which the \<^verbatim>\<open>alter\<close> branch binds in a loop that may not run (reading it unbound
  raises).\<close>

record any_state =
  a_data :: pdict
  translation_sense :: "string option"
  brk :: "nat option"
  a_diags :: "diag list"

definition alter_break :: "string list \<Rightarrow> nat option \<Rightarrow> nat option" where
  "alter_break vec b =
     (if vec = [] then b
      else let n = length (takeWhile (\<lambda>x. x \<noteq> []) vec)
           in Some (if n < length vec then n else length vec - 1))"

definition alter_entry :: "string list \<Rightarrow> nat \<Rightarrow> nat \<Rightarrow> val" where
  "alter_entry vec b i =
     (let alt = vec ! i;
          dialect = (if b + 1 + i < length vec then vec ! (b + 1 + i) else [])
      in VDict ([(VStr ''word'', VStr alt)]
                @ (if dialect \<noteq> [] then [(VStr ''dialect'', VStr dialect)] else [])))"

definition parse_alter :: "(string \<Rightarrow> string) \<Rightarrow> template \<Rightarrow> any_state \<Rightarrow> any_state option" where
  "parse_alter cv t st =
     (let vec = t_vec cv t in
      case alter_break vec (brk st) of
        None \<Rightarrow> None
      | Some b \<Rightarrow>
          if length vec < b then None
          else Some (st\<lparr>brk := Some b,
                       a_data := fold (\<lambda>i d. data_append d ''alternative'' (alter_entry vec b i))
                                      [0..<b] (a_data st)\<rparr>))"

definition translation_entry :: "(string \<Rightarrow> string) \<Rightarrow> template \<Rightarrow> string option \<Rightarrow> val" where
  "translation_entry cv t sense =
     (let vec = t_vec cv t;
          markers = drop 2 vec;
          alt = t_arg cv t ''alt'';
          roman = t_arg cv t ''tr'';
          script = t_arg cv t ''sc''
      in VDict ([(VStr ''lang'', VStr (vec ! 0)), (VStr ''word'', VStr (vec ! 1))]
           @ (case sense of Some s \<Rightarrow> if s \<noteq> [] then [(VStr ''sense'', VStr s)] else []
              | None \<Rightarrow> [])
           @ (if markers \<noteq> [] then [(VStr ''tags'', VList (map VStr markers))] else [])
           @ (if alt \<noteq> [] then [(VStr ''alt'', VStr alt)] else [])
           @ (if roman \<noteq> [] then [(VStr ''roman'', VStr roman)] else [])
           @ (if script \<noteq> [] then [(VStr ''script'', VStr script)] else [])))"

definition opt_str :: "string option \<Rightarrow> val" where
  "opt_str s = (case s of None \<Rightarrow> VNone | Some x \<Rightarrow> VStr x)"

text \<open>One turn of the loop over \<^verbatim>\<open>p.templates\<close>.\<close>

definition parse_any_template ::
  "config \<Rightarrow> (string \<Rightarrow> string) \<Rightarrow> string \<Rightarrow> template \<Rightarrow> any_state \<Rightarrow> any_state option" where
  "parse_any_template cfg cv sectitle t st =
     (let name = strip (tname t) in
      if name = ''alter'' then parse_alter cv t st
      else if name = ''section link'' then
        (case match_translations_link (t_arg cv t ''1'') of
           None \<Rightarrow> Some st
         | Some (tpage, tword, tsect) \<Rightarrow>
             Some (st\<lparr>a_diags := a_diags st
                          @ (if tword \<noteq> word cfg then [UnknownValue name ''TRANSLATIONS LINK'']
                             else []),
                       a_data := data_append (a_data st) ''translation_link''
                                   (VTuple [VStr tpage, opt_str tsect])\<rparr>))
      else if name = ''trans-top'' then Some (st\<lparr>translation_sense := Some (t_arg cv t ''1'')\<rparr>)
      else if name = ''trans-bottom'' then Some (st\<lparr>translation_sense := None\<rparr>)
      else if name = ''t'' \<or> name = ''t+'' then
        (if capture_translations cfg then
           (if length (t_vec cv t) < 2 then Some st
            else Some (st\<lparr>a_data := data_append (a_data st) ''translations''
                                       (translation_entry cv t (translation_sense st))\<rparr>))
         else Some st)
      else if match_conj name then
        Some (st\<lparr>a_data := data_append (a_data st) ''conjugation'' (VDict (t_dict cv t))\<rparr>)
      else if name = ''enum'' then
        Some (st\<lparr>a_data := data_append (a_data st) ''enum''
                   (VDict [(VStr ''lang'', VStr (t_arg cv t ''1'')),
                           (VStr ''prev'', VStr (t_arg cv t ''2'')),
                           (VStr ''next'', VStr (t_arg cv t ''3'')),
                           (VStr ''value'', VStr (t_arg cv t ''4''))])\<rparr>)
      else if name = ''IPA'' \<and> sectitle \<noteq> ''pronunciation'' then
        Some (st\<lparr>a_diags := a_diags st @ [Error (''IPA outside pronunciation in section '' @ sectitle)]\<rparr>)
      else Some st)"

fun parse_any_templates ::
  "config \<Rightarrow> (string \<Rightarrow> string) \<Rightarrow> string \<Rightarrow> template list \<Rightarrow> any_state \<Rightarrow> any_state option" where
  "parse_any_templates cfg cv sectitle [] st = Some st"
| "parse_any_templates cfg cv sectitle (t # ts) st =
     (case parse_any_template cfg cv sectitle t st of
        None \<Rightarrow> None
      | Some st' \<Rightarrow> parse_any_templates cfg cv sectitle ts st')"

text \<open>The loop over \<^verbatim>\<open>p.wikilinks\<close>: the topic of a category link, without a
  language code in front of it (\<^verbatim>\<open>^[a-z][a-z][a-z]?:(.*)\<close>).\<close>

definition category_topic :: "string \<Rightarrow> string" where
  "category_topic target =
     (let n = (if 3 < length target \<and> list_all is_lower_az (take 3 target) \<and> target ! 3 = CHR '':''
               then Some 3
               else if 2 < length target \<and> list_all is_lower_az (take 2 target)
                       \<and> target ! 2 = CHR '':''
               then Some 2 else None)
      in case n of None \<Rightarrow> target
         | Some k \<Rightarrow> takeWhile (\<lambda>c. c \<noteq> CHR 0x0A) (drop (Suc k) target))"

definition parse_any_wikilink :: "string \<Rightarrow> pdict \<Rightarrow> pdict" where
  "parse_any_wikilink target0 data =
     (let target = strip target0 in
      if startswith target ''Category:'' then
        data_append data ''topics'' (VDict [(VStr ''word'', VStr (category_topic (drop 9 target)))])
      else data)"

text \<open>\<^verbatim>\<open>parse_any(config, data, text, sectitle, p)\<close>; the parse \<open>p\<close> of the text
  is its templates and the targets of its links, as \<^verbatim>\<open>wikitextparser\<close> lists
  them.\<close>

definition parse_any ::
  "config \<Rightarrow> (string \<Rightarrow> string) \<Rightarrow> pdict \<Rightarrow> string \<Rightarrow> template list \<Rightarrow> string list
     \<Rightarrow> (pdict \<times> diag list) option" where
  "parse_any cfg cv data sectitle templates wikilinks =
     (case parse_any_templates cfg cv sectitle templates
             \<lparr>a_data = data, translation_sense = None, brk = None, a_diags = []\<rparr> of
        None \<Rightarrow> None
      | Some st \<Rightarrow> Some (fold parse_any_wikilink wikilinks (a_data st), a_diags st))"

text \<open>For stating the property, in the words of the specification: the sense marker is
  set by a \<open>trans-top\<close>, cleared by a \<open>trans-bottom\<close> and left alone by anything else;
  a translation entry is a \<open>t\<close> or \<open>t+\<close> with a language and a word; the entries of a
  template list are listed with the marker in force where they stand.\<close>

definition is_translation_entry :: "(string \<Rightarrow> string) \<Rightarrow> template \<Rightarrow> bool" where
  "is_translation_entry cv t =
     ((strip (tname t) = ''t'' \<or> strip (tname t) = ''t+'') \<and> 2 \<le> length (t_vec cv t))"

definition next_marker :: "(string \<Rightarrow> string) \<Rightarrow> template \<Rightarrow> string option \<Rightarrow> string option" where
  "next_marker cv t m =
     (if strip (tname t) = ''trans-top'' then Some (t_arg cv t ''1'')
      else if strip (tname t) = ''trans-bottom'' then None else m)"

fun marked_entries ::
  "(string \<Rightarrow> string) \<Rightarrow> string option \<Rightarrow> template list \<Rightarrow> (template \<times> string option) list" where
  "marked_entries cv m [] = []"
| "marked_entries cv m (t # ts) =
     (if is_translation_entry cv t then (t, m) # marked_entries cv m ts
      else marked_entries cv (next_marker cv t m) ts)"


text \<open>Reading a key of a dictionary value.\<close>

definition vget :: "val \<Rightarrow> string \<Rightarrow> val option" where
  "vget v k = (case v of VDict d \<Rightarrow> map_of d (VStr k) | _ \<Rightarrow> None)"

section \<open>Post-processing of a page\<close>

text \<open>\<^verbatim>\<open>parse_page\<close> works on the record objects that \<^verbatim>\<open>parse_language\<close>
  returned, and changes them in place: the same record object is reached through the
  list of its language in \<^verbatim>\<open>by_lang\<close> and through \<^verbatim>\<open>datas\<close>, and the
  dictionaries in a \<^verbatim>\<open>topics\<close> list may be shared between records (a merge copies
  references). So the records are kept in a store and named by their position in it, and
  the topic dictionaries in a second store: a record is its fields other than
  \<^verbatim>\<open>topics\<close> and, when it has that key, the list of the topic objects it refers
  to.\<close>

record page_record =
  r_fields :: pdict
  r_topics :: "nat list option"

record page_state =
  recs :: "page_record list"
  tstore :: "pdict list"

text \<open>Python can only use a hashable value as the key of \<^verbatim>\<open>by_lang\<close>.\<close>

primrec hashable :: "val \<Rightarrow> bool" where
  "hashable VNone = True"
| "hashable (VBool b) = True"
| "hashable (VInt i) = True"
| "hashable (VStr s) = True"
| "hashable (VList xs) = False"
| "hashable (VTuple xs) = list_all (\<lambda>b. b) (map hashable xs)"
| "hashable (VDict d) = False"

text \<open>\<^verbatim>\<open>by_lang[data["lang"]].append(data)\<close> on a \<^verbatim>\<open>defaultdict(list)\<close>.\<close>

definition group_add :: "(val \<times> nat list) list \<Rightarrow> val \<Rightarrow> nat \<Rightarrow> (val \<times> nat list) list" where
  "group_add g k a =
     (case map_of g k of None \<Rightarrow> g @ [(k, [a])] | Some ids \<Rightarrow> AList.update k (ids @ [a]) g)"

fun collect_langs ::
  "page_record list \<Rightarrow> nat list \<Rightarrow> (val \<times> nat list) list \<Rightarrow> (val \<times> nat list) list option" where
  "collect_langs rs [] g = Some g"
| "collect_langs rs (a # as) g =
     (case dget (r_fields (rs ! a)) ''lang'' of
        None \<Rightarrow> collect_langs rs as g
      | Some l \<Rightarrow> if hashable l then collect_langs rs as (group_add g l a) else None)"

fun by_lang :: "page_record list \<Rightarrow> nat list list \<Rightarrow> (val \<times> nat list) list \<Rightarrow> (val \<times> nat list) list option" where
  "by_lang rs [] g = Some g"
| "by_lang rs (datas # sections) g =
     (case collect_langs rs datas g of None \<Rightarrow> None | Some g' \<Rightarrow> by_lang rs sections g')"

text \<open>\<^verbatim>\<open>d.get(k)\<close> and \<^verbatim>\<open>d.get(k, ())\<close>.\<close>

definition get_or_none :: "pdict \<Rightarrow> string \<Rightarrow> val" where
  "get_or_none d k = (case dget d k of None \<Rightarrow> VNone | Some v \<Rightarrow> v)"

definition get_or_empty :: "pdict \<Rightarrow> string \<Rightarrow> val" where
  "get_or_empty d k = (case dget d k of None \<Rightarrow> VTuple [] | Some v \<Rightarrow> v)"

text \<open>\<^verbatim>\<open>x in v\<close> for a string \<open>x\<close>: an element of a sequence, a part of a string,
  a key of a dictionary; a \<^verbatim>\<open>TypeError\<close> otherwise.\<close>

definition py_in :: "string \<Rightarrow> val \<Rightarrow> bool option" where
  "py_in x v = (case v of
       VList xs \<Rightarrow> Some (list_ex (\<lambda>y. py_eq y (VStr x)) xs)
     | VTuple xs \<Rightarrow> Some (list_ex (\<lambda>y. py_eq y (VStr x)) xs)
     | VStr s \<Rightarrow> Some (contains s x)
     | VDict d \<Rightarrow> Some (map_of d (VStr x) \<noteq> None)
     | _ \<Rightarrow> None)"

text \<open>\<^verbatim>\<open>any("participle" in s.get("tags", ()) for s in senses)\<close>, which stops at the
  first sense that has the tag; a sense that is not a dictionary raises.\<close>

fun any_participle :: "val list \<Rightarrow> bool option" where
  "any_participle [] = Some False"
| "any_participle (s # ss) =
     (case s of
        VDict d \<Rightarrow>
          (case py_in ''participle'' (get_or_empty d ''tags'') of
             None \<Rightarrow> None
           | Some True \<Rightarrow> Some True
           | Some False \<Rightarrow> any_participle ss)
      | _ \<Rightarrow> None)"

definition compatible_pairs :: "(string \<times> string) list" where
  "compatible_pairs = [(''noun'', ''adj''), (''noun'', ''name''), (''name'', ''noun''),
                       (''name'', ''adj''), (''adj'', ''noun''), (''adj'', ''name'')]"

text \<open>The test that lets \<open>data\<close> (of part of speech \<open>pos\<close>) take the conjugation of
  the record \<open>dt\<close>.\<close>

definition donor_ok :: "val \<Rightarrow> pdict \<Rightarrow> bool option" where
  "donor_ok pos dt =
     (let cpos = get_or_none dt ''pos'' in
      if py_eq pos cpos then Some True
      else if list_ex (\<lambda>(p, c). py_eq pos (VStr p) \<and> py_eq cpos (VStr c)) compatible_pairs
      then Some True
      else if py_eq pos (VStr ''adj'') \<and> py_eq cpos (VStr ''verb'') then
        (case py_iter (get_or_empty dt ''senses'') of
           None \<Rightarrow> None
         | Some ss \<Rightarrow> any_participle ss)
      else Some False)"

text \<open>The loop \<^verbatim>\<open>for dt in datas\<close>: the conjugation of the first record that
  qualifies, if any.\<close>

fun find_donor :: "page_record list \<Rightarrow> pdict \<Rightarrow> val \<Rightarrow> nat list \<Rightarrow> val option option" where
  "find_donor rs data pos [] = Some None"
| "find_donor rs data pos (b # datas) =
     (let dt = r_fields (rs ! b) in
      if \<not> py_eq (get_or_none data ''lang'') (get_or_none dt ''lang'')
      then find_donor rs data pos datas
      else
        let conjs = get_or_empty dt ''conjugation'' in
        if \<not> py_truthy conjs then find_donor rs data pos datas
        else (case donor_ok pos dt of
                None \<Rightarrow> None
              | Some True \<Rightarrow> Some (Some conjs)
              | Some False \<Rightarrow> find_donor rs data pos datas))"

definition share_conjugation :: "nat list \<Rightarrow> nat \<Rightarrow> page_record list \<Rightarrow> page_record list option" where
  "share_conjugation datas a rs =
     (let data = r_fields (rs ! a) in
      if dget data ''conjugation'' \<noteq> None then Some rs
      else
        let pos = get_or_none data ''pos'' in
        if \<not> py_truthy pos then None
        else (case find_donor rs data pos datas of
                None \<Rightarrow> None
              | Some None \<Rightarrow> Some rs
              | Some (Some conjs) \<Rightarrow>
                  Some (rs[a := (rs ! a)\<lparr>r_fields := dset data ''conjugation'' conjs\<rparr>])))"

fun share_all :: "nat list \<Rightarrow> nat list \<Rightarrow> page_record list \<Rightarrow> page_record list option" where
  "share_all datas [] rs = Some rs"
| "share_all datas (a # as) rs =
     (case share_conjugation datas a rs of None \<Rightarrow> None | Some rs' \<Rightarrow> share_all datas as rs')"

text \<open>The topics of the last record of a language, marked and added to the others.\<close>

definition mark_inaccurate :: "nat \<Rightarrow> pdict list \<Rightarrow> pdict list" where
  "mark_inaccurate t ts = ts[t := dset (ts ! t) ''inaccurate'' (VBool True)]"

definition add_topics :: "nat list \<Rightarrow> nat \<Rightarrow> page_record list \<Rightarrow> page_record list" where
  "add_topics topics a rs =
     (let new_topics = (case r_topics (rs ! a) of None \<Rightarrow> [] | Some own \<Rightarrow> own) @ topics
      in if new_topics \<noteq> [] then rs[a := (rs ! a)\<lparr>r_topics := Some new_topics\<rparr>] else rs)"

definition propagate_topics :: "nat list \<Rightarrow> page_state \<Rightarrow> page_state" where
  "propagate_topics lang_datas st =
     (if 1 < length lang_datas then
        let topics = (case r_topics (recs st ! last lang_datas) of None \<Rightarrow> [] | Some ts \<Rightarrow> ts)
        in \<lparr>recs = fold (add_topics topics) (butlast lang_datas) (recs st),
            tstore = fold mark_inaccurate topics (tstore st)\<rparr>
      else st)"

definition process_lang :: "nat list \<Rightarrow> nat list \<Rightarrow> page_state \<Rightarrow> page_state option" where
  "process_lang datas lang_datas st =
     (case share_all datas lang_datas (recs st) of
        None \<Rightarrow> None
      | Some rs \<Rightarrow> Some (propagate_topics lang_datas (st\<lparr>recs := rs\<rparr>)))"

fun process_langs :: "nat list \<Rightarrow> nat list list \<Rightarrow> page_state \<Rightarrow> page_state option" where
  "process_langs datas [] st = Some st"
| "process_langs datas (g # gs) st =
     (case process_lang datas g st of None \<Rightarrow> None | Some st' \<Rightarrow> process_langs datas gs st')"

text \<open>\<^verbatim>\<open>parse_page\<close> from the lists that \<^verbatim>\<open>parse_language\<close> returned for the
  language sections of the page, in the order of the page. After the loop over the
  sections \<^verbatim>\<open>datas\<close> is the list of the last section. The result is the list
  \<^verbatim>\<open>ret\<close> and the stores.\<close>

definition parse_page_post :: "nat list list \<Rightarrow> page_state \<Rightarrow> (nat list \<times> page_state) option" where
  "parse_page_post sections st =
     (case by_lang (recs st) sections [] of
        None \<Rightarrow> None
      | Some g \<Rightarrow>
          (case process_langs (if sections = [] then [] else last sections) (map snd g) st of
             None \<Rightarrow> None
           | Some st' \<Rightarrow> Some (concat (map snd g), st')))"


text \<open>For stating the properties: the topic objects a record refers to.\<close>

definition topics_of :: "page_record \<Rightarrow> nat list" where
  "topics_of r = (case r_topics r of None \<Rightarrow> [] | Some ts \<Rightarrow> ts)"




section \<open>The walk over a language section\<close>

text \<open>The document tree of \<^verbatim>\<open>wikitextprocessor\<close>: a child is a string or a
  \<^verbatim>\<open>WikiNode\<close> with a kind, its arguments and its children. The arguments of a
  heading are the nodes of its title; the arguments of a list item are the string of its
  bullets.\<close>

datatype kind =
    LEVEL2 | LEVEL3 | LEVEL4 | LEVEL5 | LEVEL6
  | LIST | LIST_ITEM | TEMPLATE | TABLE | TABLE_ROW | TABLE_CELL | HTML | HLINE | OTHER

datatype node =
    Text string
  | WikiNode kind string "node list" "node list"

fun is_level :: "kind \<Rightarrow> bool" where
  "is_level LEVEL2 = True"
| "is_level LEVEL3 = True"
| "is_level LEVEL4 = True"
| "is_level LEVEL5 = True"
| "is_level LEVEL6 = True"
| "is_level k = False"

fun is_sublevel :: "kind \<Rightarrow> bool" where
  "is_sublevel LEVEL3 = True"
| "is_sublevel LEVEL4 = True"
| "is_sublevel LEVEL5 = True"
| "is_sublevel LEVEL6 = True"
| "is_sublevel k = False"

text \<open>An entry of \<^verbatim>\<open>part_of_speech_map\<close>.\<close>

record pos_info =
  pi_pos :: "string option"
  pi_tags :: "val list option"
  pi_warning :: "string option"
  pi_error :: "string option"

text \<open>A template hook tells the renderer what to put for a template (\<^const>\<open>None\<close>:
  expand it as usual); what the hook does besides is applied to the templates the
  renderer called it on, in the order of the calls.\<close>

type_synonym hook = "string \<Rightarrow> pdict \<Rightarrow> string option"

text \<open>What the walk takes from outside this file: the renderer of the tree provider
  (\<^verbatim>\<open>clean_node\<close> on nodes, with the templates it calls the hook on, and the
  templates \<^verbatim>\<open>node_to_html\<close> calls it on), the tables
  \<^verbatim>\<open>part_of_speech_map\<close> and \<^verbatim>\<open>languages_by_code\<close>,
  \<^verbatim>\<open>html.unescape\<close>, the parsers of \<^verbatim>\<open>form_descriptions\<close> (each changes the
  dictionary it is given), the matches of the regular expressions of the pronunciation
  section, and the appends that the linkage and the translation walks make to their
  target.\<close>

record ext =
  render :: "hook \<Rightarrow> node list \<Rightarrow> string"
  hook_calls :: "hook \<Rightarrow> node list \<Rightarrow> (string \<times> pdict) list"
  html_hook_calls :: "hook \<Rightarrow> node \<Rightarrow> (string \<times> pdict) list"
  pos_map :: "string \<Rightarrow> pos_info option"
  language_codes :: "string list"
  unescape :: "string \<Rightarrow> string"
  parse_sense_tags :: "string \<Rightarrow> pdict \<Rightarrow> pdict"
  parse_word_head :: "string \<Rightarrow> string \<Rightarrow> pdict \<Rightarrow> pdict"
  parse_pronunciation_tags :: "string \<Rightarrow> pdict \<Rightarrow> pdict"
  rx_leading_tags :: "string \<Rightarrow> (string \<times> string) option"
  rx_tokyo :: "string \<Rightarrow> string option"
  rx_rhymes :: "string \<Rightarrow> string option"
  rx_ipa :: "string \<Rightarrow> string list"
  rx_syllabification :: "string \<Rightarrow> string option"
  linkage_appends :: "string \<Rightarrow> node \<Rightarrow> (string \<times> val) list"
  translation_appends :: "node \<Rightarrow> (string \<times> val) list"

definition no_hook :: hook where
  "no_hook name ht = None"

text \<open>A merge stores the value object of the parent under a key the child lacks
  (\<^verbatim>\<open>data[k] = v\<close>), and a later merge extends the list it finds under a key in
  place (\<^verbatim>\<open>data[k].extend(v)\<close>). A list of a scope is therefore one object in all
  the records that took it, and what one of them appends to it the others hold too. The
  records that wait in \<^verbatim>\<open>pos_datas\<close>, \<^verbatim>\<open>etym_datas\<close> and
  \<^verbatim>\<open>page_datas\<close> hold, under each key, a value of their own or the number of a
  shared list; the shared lists are kept in \<open>cells\<close>.\<close>

datatype slot = Own val | Shared nat

type_synonym rdict = "(val \<times> slot) list"

definition slot_val :: "val list list \<Rightarrow> slot \<Rightarrow> val" where
  "slot_val cs s = (case s of Own v \<Rightarrow> v | Shared c \<Rightarrow> VList (cs ! c))"

text \<open>A record as a dictionary of values, and a dictionary none of whose values is
  shared yet.\<close>

definition resolve :: "val list list \<Rightarrow> rdict \<Rightarrow> pdict" where
  "resolve cs r = map (\<lambda>(k, s). (k, slot_val cs s)) r"

definition own_all :: "pdict \<Rightarrow> rdict" where
  "own_all d = map (\<lambda>(k, v). (k, Own v)) d"

text \<open>The variables of \<^verbatim>\<open>parse_language\<close> that its nested functions share, the
  diagnostics sent to the context, and the titles counted in
  \<^verbatim>\<open>config.section_counts\<close>.\<close>

record lang_state =
  base :: pdict
  sense_data :: pdict
  pos_data :: pdict
  etym_data :: pdict
  pos_datas :: "rdict list"
  etym_datas :: "rdict list"
  page_datas :: "rdict list"
  cells :: "val list list"
  stack :: "string list"
  diags :: "diag list"
  section_counts :: "string list"

text \<open>The scope that is merged into the waiting records: each of its lists becomes a
  shared list, so that a record can take the list itself.\<close>

fun share_lists :: "pdict \<Rightarrow> val list list \<Rightarrow> rdict \<times> val list list" where
  "share_lists [] cs = ([], cs)"
| "share_lists ((k, v) # d) cs =
     (case v of
        VList xs \<Rightarrow>
          (case share_lists d (cs @ [xs]) of (r, cs') \<Rightarrow> ((k, Shared (length cs)) # r, cs'))
      | _ \<Rightarrow> (case share_lists d cs of (r, cs') \<Rightarrow> ((k, Own v) # r, cs')))"

text \<open>\<^verbatim>\<open>merge_base(data, base)\<close> on a waiting record, one key of \<open>base\<close> at
  a time: the value of the parent is stored as it is under a key the record lacks; a list
  of the record, its own or a shared one, is extended in place; any other value is kept
  and compared.\<close>

definition merge_slot ::
  "val \<times> slot \<Rightarrow> rdict \<times> val list list \<times> diag list
     \<Rightarrow> (rdict \<times> val list list \<times> diag list) option" where
  "merge_slot kv st =
     (case kv of (k, s) \<Rightarrow> case st of (data, cs, ws) \<Rightarrow>
        (case map_of data k of
           None \<Rightarrow> Some (AList.update k s data, cs, ws)
         | Some (Shared c) \<Rightarrow>
             (case py_iter (slot_val cs s) of
                None \<Rightarrow> None
              | Some ys \<Rightarrow> Some (data, cs[c := cs ! c @ ys], ws))
         | Some (Own (VList xs)) \<Rightarrow>
             (case py_iter (slot_val cs s) of
                None \<Rightarrow> None
              | Some ys \<Rightarrow> Some (AList.update k (Own (VList (xs @ ys))) data, cs, ws))
         | Some (Own x) \<Rightarrow>
             Some (data, cs,
                   if py_eq x (slot_val cs s) then ws
                   else ws @ [ConflictingValues k x (slot_val cs s)])))"

fun merge_slots ::
  "rdict \<Rightarrow> rdict \<times> val list list \<times> diag list
     \<Rightarrow> (rdict \<times> val list list \<times> diag list) option" where
  "merge_slots [] st = Some st"
| "merge_slots (kv # parent) st =
     (case merge_slot kv st of None \<Rightarrow> None | Some st' \<Rightarrow> merge_slots parent st')"

text \<open>The loop \<^verbatim>\<open>for data in datas: merge_base(data, parent)\<close>.\<close>

fun merge_all ::
  "rdict list \<Rightarrow> rdict \<Rightarrow> val list list
     \<Rightarrow> (rdict list \<times> val list list \<times> diag list) option" where
  "merge_all [] parent cs = Some ([], cs, [])"
| "merge_all (data # datas) parent cs =
     (case merge_slots parent (data, cs, []) of
        None \<Rightarrow> None
      | Some (data', cs1, ws) \<Rightarrow>
          (case merge_all datas parent cs1 of
             None \<Rightarrow> None
           | Some (datas', cs2, ws') \<Rightarrow> Some (data' # datas', cs2, ws @ ws')))"

definition merge_scope ::
  "rdict list \<Rightarrow> pdict \<Rightarrow> val list list
     \<Rightarrow> (rdict list \<times> val list list \<times> diag list) option" where
  "merge_scope datas parent cs =
     (case share_lists parent cs of (shared, cs1) \<Rightarrow> merge_all datas shared cs1)"

definition push_sense :: "lang_state \<Rightarrow> lang_state" where
  "push_sense st =
     (if sense_data st = [] then st
      else st\<lparr>pos_datas := pos_datas st @ [own_all (sense_data st)], sense_data := []\<rparr>)"

definition push_pos :: "lang_state \<Rightarrow> lang_state option" where
  "push_pos st0 =
     (let st = push_sense st0 in
      case merge_scope (pos_datas st) (pos_data st) (cells st) of
        None \<Rightarrow> None
      | Some (datas, cs, ws) \<Rightarrow>
          Some (st\<lparr>etym_datas := etym_datas st @ datas, pos_data := [], pos_datas := [],
                   cells := cs, diags := diags st @ ws\<rparr>))"

definition push_etym :: "lang_state \<Rightarrow> lang_state option" where
  "push_etym st0 =
     (case push_pos st0 of
        None \<Rightarrow> None
      | Some st \<Rightarrow>
          (case merge_scope (etym_datas st) (etym_data st) (cells st) of
             None \<Rightarrow> None
           | Some (datas, cs, ws) \<Rightarrow>
               Some (st\<lparr>page_datas := page_datas st @ datas, etym_data := [], etym_datas := [],
                        cells := cs, diags := diags st @ ws\<rparr>)))"

text \<open>Applying a sequence of \<^verbatim>\<open>data_append\<close> calls.\<close>

definition apply_appends :: "(string \<times> val) list \<Rightarrow> pdict \<Rightarrow> pdict" where
  "apply_appends ws d = fold (\<lambda>(k, v) d. data_append d k v) ws d"

subsection \<open>Senses\<close>

definition sense_hook :: hook where
  "sense_hook name ht =
     (if name = ''LDL'' then Some []
      else if name = ''syn'' \<or> name = ''synonyms'' then Some []
      else None)"

text \<open>The arguments 2 to 19 of a \<open>syn\<close> template up to the first that is missing or
  empty.\<close>

definition syn_words :: "pdict \<Rightarrow> val list" where
  "syn_words ht =
     takeWhile py_truthy
       (map (\<lambda>i. case map_of ht (VInt i) of None \<Rightarrow> VNone | Some w \<Rightarrow> w)
            [2, 3, 4, 5, 6, 7, 8, 9, 10, 11, 12, 13, 14, 15, 16, 17, 18, 19])"

definition sense_template_fn :: "string \<times> pdict \<Rightarrow> pdict \<Rightarrow> pdict" where
  "sense_template_fn call sd =
     (case call of (name, ht) \<Rightarrow>
        if name = ''LDL'' then sd
        else if name = ''syn'' \<or> name = ''synonyms'' then
          fold (\<lambda>w d. data_append d ''synonyms'' (VDict [(VStr ''word'', w)])) (syn_words ht) sd
        else sd)"

text \<open>\<^verbatim>\<open>^\(([^)]*)\):?\s*\<close> at the start of a gloss: the text in the parentheses
  and the rest of the gloss.\<close>

definition match_qualifier :: "string \<Rightarrow> (string \<times> string) option" where
  "match_qualifier gloss =
     (case gloss of
        [] \<Rightarrow> None
      | c # rest \<Rightarrow>
          if c \<noteq> CHR ''('' then None
          else
            let inner = takeWhile (\<lambda>x. x \<noteq> CHR '')'') rest;
                r1 = drop (length inner) rest
            in (case r1 of
                  [] \<Rightarrow> None
                | p # r2 \<Rightarrow>
                    let r3 = (case r2 of [] \<Rightarrow> r2 | q # r \<Rightarrow> if q = CHR '':'' then r else r2)
                    in Some (inner, dropWhile is_space r3)))"

definition is_list_node :: "node \<Rightarrow> bool" where
  "is_list_node n = (case n of Text s \<Rightarrow> False | WikiNode k a as cs \<Rightarrow> k = LIST)"

definition parse_sense :: "ext \<Rightarrow> string \<Rightarrow> node list \<Rightarrow> lang_state \<Rightarrow> lang_state" where
  "parse_sense e pos children st0 =
     (let st = push_sense st0;
          lst = filter (\<lambda>x. \<not> is_list_node x) children;
          sd1 = fold sense_template_fn (hook_calls e sense_hook lst) (sense_data st);
          gloss = render e sense_hook lst;
          ws = (if gloss = [] then [Warning (pos @ '': empty gloss'')] else []);
          m = match_qualifier gloss;
          sd2 = (case m of None \<Rightarrow> sd1 | Some (q, r) \<Rightarrow> parse_sense_tags e q sd1);
          gloss1 = (case m of None \<Rightarrow> gloss | Some (q, r) \<Rightarrow> strip r);
          gloss2 = (if startswith gloss1 '', '' then drop 2 gloss1 else gloss1)
      in st\<lparr>sense_data := data_append sd2 ''glosses'' (VStr gloss2), diags := diags st @ ws\<rparr>)"


subsection \<open>Parts of speech\<close>

text \<open>\<^verbatim>\<open>re.split(r"\n\n+", s)\<close>: the pieces of a string between its runs of two
  or more newlines.\<close>

function split_paragraphs :: "string \<Rightarrow> string \<Rightarrow> string list" where
  "split_paragraphs acc [] = [rev acc]"
| "split_paragraphs acc (c # cs) =
     (if c = CHR 0x0A \<and> startswith cs [CHR 0x0A]
      then rev acc # split_paragraphs [] (dropWhile (\<lambda>x. x = CHR 0x0A) cs)
      else split_paragraphs (c # acc) cs)"
  by pat_completeness auto
termination
  by (relation "measure (\<lambda>(acc, s). length s)")
     (auto simp: length_dropWhile_le le_imp_less_Suc)

definition head_words :: "string list" where
  "head_words = [''plural-noun'', ''plural noun'', ''noun'', ''verb'', ''adj'', ''adv'',
     ''name'', ''proper-noun'', ''proper noun'', ''prop'', ''pron'', ''phrase'',
     ''decl noun'', ''decl-noun'', ''prefix'', ''clitic'', ''number'', ''ordinal'',
     ''syllable'', ''suffix'', ''affix'', ''pos'', ''gerund'', ''combining form'',
     ''combining-form'', ''converb'', ''cont'', ''con'', ''interj'', ''det'', ''part'',
     ''part-form'', ''postp'', ''prep'']"

text \<open>\<^verbatim>\<open>head_tag_re\<close>, searched in a template name: the name \<open>head\<close> or
  \<open>Han char\<close>, or a language code, a hyphen and a word of the list, followed by a
  hyphen or the end.\<close>

definition match_head_tag :: "string list \<Rightarrow> string \<Rightarrow> bool" where
  "match_head_tag codes name =
     ((startswith name ''head'' \<and> at_end (drop 4 name))
      \<or> (startswith name ''Han char'' \<and> at_end (drop 8 name))
      \<or> list_ex (\<lambda>code.
            startswith name (code @ ''-'')
            \<and> list_ex (\<lambda>w. startswith (drop (Suc (length code)) name) w
                          \<and> (let r = drop (Suc (length code) + length w) name
                             in at_end r \<or> startswith r ''-''))
                       head_words)
          codes)"

definition head_hook :: hook where
  "head_hook name ht =
     (if name \<in> set [''examples'', ''wikipedia'', ''stroke order'', ''zh-forms'',
                      ''number box'', ''enum'', ''Han simplified forms'', ''ja-kanji forms'']
      then Some [] else None)"

definition decode_html_entities :: "ext \<Rightarrow> val \<Rightarrow> val" where
  "decode_html_entities e v = (case v of VStr s \<Rightarrow> VStr (unescape e s) | _ \<Rightarrow> v)"

text \<open>The copy of the arguments of a template that is stored for it.\<close>

definition decoded_args :: "ext \<Rightarrow> string \<Rightarrow> pdict \<Rightarrow> val" where
  "decoded_args e name ht =
     VDict (AList.update (VStr ''template_name'') (VStr name)
             (fold (\<lambda>(k, v) d. AList.update (decode_html_entities e k)
                                  (decode_html_entities e v) d) ht []))"

definition head_template_fn :: "ext \<Rightarrow> string \<times> pdict \<Rightarrow> pdict \<Rightarrow> pdict" where
  "head_template_fn e call pd =
     (case call of (name, ht) \<Rightarrow>
        if head_hook name ht \<noteq> None then pd
        else if match_head_tag (language_codes e) name
             then data_append pd ''heads'' (decoded_args e name ht)
        else pd)"

text \<open>The loop of \<^verbatim>\<open>parse_part_of_speech\<close> over the children of the section: the
  nodes of the first paragraph and the sense list, if there is one before the first
  subsection.\<close>

fun scan_pos :: "node list \<Rightarrow> node list \<Rightarrow> bool \<Rightarrow> node list \<times> node option" where
  "scan_pos [] pre first_para = (pre, None)"
| "scan_pos (Text s # ns) pre first_para =
     (if pre \<noteq> [] then scan_pos ns pre False
      else (case dropWhile (\<lambda>p. p = []) (split_paragraphs [] s) of
              [] \<Rightarrow> scan_pos ns pre first_para
            | p # ps \<Rightarrow> scan_pos ns [Text p] (if ps \<noteq> [] then False else first_para)))"
| "scan_pos (WikiNode k a as cs # ns) pre first_para =
     (if k = LIST then (pre, Some (WikiNode k a as cs))
      else if is_level k then (pre, None)
      else if first_para then scan_pos ns (pre @ [WikiNode k a as cs]) first_para
      else scan_pos ns pre first_para)"

text \<open>The loop over the items of the sense list. A child that is a string has no
  \<^verbatim>\<open>kind\<close>, and a list item without bullets has no last character: both raise.\<close>

fun parse_senses :: "ext \<Rightarrow> string \<Rightarrow> node list \<Rightarrow> lang_state \<Rightarrow> lang_state option" where
  "parse_senses e pos [] st = Some st"
| "parse_senses e pos (Text s # ns) st = None"
| "parse_senses e pos (WikiNode k a as cs # ns) st =
     (if k \<noteq> LIST_ITEM
      then parse_senses e pos ns
             (st\<lparr>diags := diags st @ [Warning (pos @ '': non-list-item inside list'')]\<rparr>)
      else if a = [] then None
      else if last a = CHR '':'' then parse_senses e pos ns st
      else parse_senses e pos ns (parse_sense e pos cs st))"

definition parse_part_of_speech ::
  "ext \<Rightarrow> node list \<Rightarrow> string \<Rightarrow> lang_state \<Rightarrow> lang_state option" where
  "parse_part_of_speech e children pos st0 =
     (let st = st0\<lparr>pos_data := dset (pos_data st0) ''pos'' (VStr pos)\<rparr> in
      case scan_pos children [] True of
        (pre, None) \<Rightarrow>
          Some (st\<lparr>diags := diags st @ [Warning (pos @ '': no sense list found'')]\<rparr>)
      | (pre, Some lst) \<Rightarrow>
          let pd1 = fold (head_template_fn e) (hook_calls e head_hook pre) (pos_data st);
              text = render e head_hook pre;
              pd2 = parse_word_head e pos text pd1
          in parse_senses e pos (case lst of WikiNode k a as cs \<Rightarrow> cs | Text s \<Rightarrow> [])
               (st\<lparr>pos_data := pd2\<rparr>))"


subsection \<open>Pronunciation\<close>

definition pronunciation_hook :: hook where
  "pronunciation_hook name ht =
     (if name = ''enPR'' \<or> name = ''audio''
         \<or> name \<in> set [''picdic'', ''picdicimg'', ''langname'']
      then Some [] else None)"

definition ht_get :: "pdict \<Rightarrow> int \<Rightarrow> val" where
  "ht_get ht i = (case map_of ht (VInt i) of None \<Rightarrow> VNone | Some v \<Rightarrow> v)"

text \<open>\<^verbatim>\<open>x or ""\<close>.\<close>

definition or_empty :: "val \<Rightarrow> val" where
  "or_empty v = (if py_truthy v then v else VStr [])"

text \<open>\<^verbatim>\<open>\(([^)]*)\)\<close>, searched in a string: the text of its first parentheses.\<close>

definition search_parens :: "string \<Rightarrow> string option" where
  "search_parens s =
     (case dropWhile (\<lambda>c. c \<noteq> CHR ''('') s of
        [] \<Rightarrow> None
      | c # r \<Rightarrow> if CHR '')'' \<in> set r then Some (takeWhile (\<lambda>x. x \<noteq> CHR '')'') r) else None)"

text \<open>The lists \<^verbatim>\<open>enprs\<close> and \<^verbatim>\<open>audios\<close> that the hook of the pronunciation
  section fills. A description that is not a string cannot be searched.\<close>

definition pronunciation_template_fn ::
  "ext \<Rightarrow> string \<times> pdict \<Rightarrow> (val list \<times> val list) option \<Rightarrow> (val list \<times> val list) option" where
  "pronunciation_template_fn e call acc =
     (case acc of
        None \<Rightarrow> None
      | Some (enprs, audios) \<Rightarrow>
          (case call of (name, ht) \<Rightarrow>
             if name = ''enPR'' then
               Some (if py_truthy (ht_get ht 1) then enprs @ [ht_get ht 1] else enprs, audios)
             else if name = ''audio'' then
               (case or_empty (ht_get ht 3) of
                  VStr desc \<Rightarrow>
                    let audio0 = [(VStr ''file'', or_empty (ht_get ht 2))];
                        audio1 = (case search_parens desc of
                                    None \<Rightarrow> audio0
                                  | Some q \<Rightarrow> parse_pronunciation_tags e q audio0);
                        audio2 = (if desc \<noteq> [] then dset audio1 ''text'' (VStr desc) else audio1)
                    in Some (enprs, audios @ [VDict audio2])
                | _ \<Rightarrow> None)
             else Some (enprs, audios)))"

text \<open>\<^verbatim>\<open>s.split("*")\<close> and \<^verbatim>\<open>s.split(",")\<close>.\<close>

fun split_star :: "string \<Rightarrow> string \<Rightarrow> string list" where
  "split_star acc [] = [rev acc]"
| "split_star acc (c # cs) =
     (if c = CHR ''*'' then rev acc # split_star [] cs else split_star (c # acc) cs)"

fun split_comma :: "string \<Rightarrow> string \<Rightarrow> string list" where
  "split_comma acc [] = [rev acc]"
| "split_comma acc (c # cs) =
     (if c = CHR '','' then rev acc # split_comma [] cs else split_comma (c # acc) cs)"

definition pron_entry :: "ext \<Rightarrow> string \<Rightarrow> string \<Rightarrow> val \<Rightarrow> val" where
  "pron_entry e tagstext field v = VDict (parse_pronunciation_tags e tagstext [(VStr field, v)])"

text \<open>What one piece of the rendered section appends to the target dictionary.\<close>

definition pronunciation_piece :: "ext \<Rightarrow> val list \<Rightarrow> val list \<Rightarrow> string \<Rightarrow> (string \<times> val) list" where
  "pronunciation_piece e enprs audios origtext =
     (let m = rx_leading_tags e origtext;
          tagstext = (case m of None \<Rightarrow> [] | Some (q, r) \<Rightarrow> q);
          text = (case m of None \<Rightarrow> origtext | Some (q, r) \<Rightarrow> r);
          field = (if contains origtext ''IPA'' then ''ipa'' else ''other'')
      in (case rx_tokyo e origtext of
            None \<Rightarrow> []
          | Some w \<Rightarrow> [(''sounds'', pron_entry e tagstext field (VStr w))])
         @ (case rx_rhymes e text of
              None \<Rightarrow> []
            | Some rs \<Rightarrow>
                map (\<lambda>ending. (''sounds'', pron_entry e tagstext ''rhymes'' (VStr ending)))
                    (filter (\<lambda>ending. ending \<noteq> []) (map strip (split_comma [] rs))))
         @ map (\<lambda>w. (''sounds'', pron_entry e tagstext field (VStr w))) (rx_ipa e text)
         @ map (\<lambda>enpr. (''sounds'', pron_entry e tagstext ''enpr'' enpr)) enprs
         @ map (\<lambda>audio. (''sounds'', audio)) audios
         @ (case rx_syllabification e text of
              None \<Rightarrow> []
            | Some w \<Rightarrow> [(''syllabification'', VStr w)]))"

text \<open>The appends of a pronunciation section, in order.\<close>

definition pronunciation_appends :: "ext \<Rightarrow> node list \<Rightarrow> (string \<times> val) list option" where
  "pronunciation_appends e children =
     (case fold (pronunciation_template_fn e) (hook_calls e pronunciation_hook children)
             (Some ([], [])) of
        None \<Rightarrow> None
      | Some (enprs, audios) \<Rightarrow>
          Some (concat (map (pronunciation_piece e enprs audios)
                            (split_star [] (render e pronunciation_hook children)))))"

text \<open>\<^verbatim>\<open>parse_pronunciation(node)\<close>: the target is chosen by the truth value of
  \<^verbatim>\<open>etym_data\<close>, which is false for a dictionary without keys.\<close>

definition parse_pronunciation :: "ext \<Rightarrow> node list \<Rightarrow> lang_state \<Rightarrow> lang_state option" where
  "parse_pronunciation e children st =
     (case pronunciation_appends e children of
        None \<Rightarrow> None
      | Some ws \<Rightarrow>
          if etym_data st \<noteq> []
          then Some (st\<lparr>etym_data := apply_appends ws (etym_data st)\<rparr>)
          else Some (st\<lparr>base := apply_appends ws (base st)\<rparr>))"

subsection \<open>Declension and conjugation\<close>

definition decl_words :: "string list" where
  "decl_words = [''conj'', ''decl'', ''ndecl'', ''adecl'', ''infl'', ''conjugation'',
                 ''declension'', ''inflection'']"

text \<open>\<^verbatim>\<open>-(conj|decl|ndecl|adecl|infl|conjugation|declension|inflection)($|-)\<close>,
  searched in a template name.\<close>

fun match_decl :: "string \<Rightarrow> bool" where
  "match_decl [] = False"
| "match_decl (c # cs) =
     ((c = CHR ''-''
       \<and> list_ex (\<lambda>w. startswith cs w
                     \<and> (let r = drop (length w) cs in at_end r \<or> startswith r ''-''))
                  decl_words)
      \<or> match_decl cs)"

definition decl_conj_hook :: hook where
  "decl_conj_hook name ht = (if match_decl name then Some [] else None)"

definition decl_conj_template_fn :: "ext \<Rightarrow> string \<times> pdict \<Rightarrow> pdict \<Rightarrow> pdict" where
  "decl_conj_template_fn e call pd =
     (case call of (name, ht) \<Rightarrow>
        if match_decl name then data_append pd ''conjugation'' (decoded_args e name ht) else pd)"

definition parse_declension_conjugation :: "ext \<Rightarrow> node \<Rightarrow> lang_state \<Rightarrow> lang_state" where
  "parse_declension_conjugation e n st =
     st\<lparr>pos_data := fold (decl_conj_template_fn e) (html_hook_calls e decl_conj_hook n) (pos_data st)\<rparr>"

subsection \<open>The sections of a language\<close>

text \<open>Where a translation or linkage section writes: the part of speech, when the last
  title on the stack is a key of \<^verbatim>\<open>part_of_speech_map\<close>, the etymology
  otherwise. An empty stack has no last title.\<close>

definition append_to_scope :: "ext \<Rightarrow> (string \<times> val) list \<Rightarrow> lang_state \<Rightarrow> lang_state option" where
  "append_to_scope e ws st =
     (if stack st = [] then None
      else if pos_map e (last (stack st)) \<noteq> None
      then Some (st\<lparr>pos_data := apply_appends ws (pos_data st)\<rparr>)
      else Some (st\<lparr>etym_data := apply_appends ws (etym_data st)\<rparr>))"

definition pos_warnings :: "string \<Rightarrow> pos_info \<Rightarrow> diag list" where
  "pos_warnings t dt =
     (case pi_warning dt of None \<Rightarrow> [] | Some w \<Rightarrow> [Warning (t @ '': '' @ w)])
     @ (case pi_error dt of None \<Rightarrow> [] | Some w \<Rightarrow> [Error (t @ '': '' @ w)])"

fun process_children :: "ext \<Rightarrow> config \<Rightarrow> node list \<Rightarrow> lang_state \<Rightarrow> lang_state option"
  and process_node :: "ext \<Rightarrow> config \<Rightarrow> node \<Rightarrow> lang_state \<Rightarrow> lang_state option" where
  "process_children e cfg [] st = Some st"
| "process_children e cfg (n # ns) st =
     (case process_node e cfg n st of
        None \<Rightarrow> None
      | Some st' \<Rightarrow> process_children e cfg ns st')"
| "process_node e cfg (Text s) st = Some st"
| "process_node e cfg (WikiNode k a as cs) st =
     (if \<not> is_sublevel k then Some st
      else
        let t = render e no_hook as; pos = lower t in
        if t = ''Pronunciation'' then
          (if capture_pronunciation cfg then
             (case parse_pronunciation e cs st of
                None \<Rightarrow> None
              | Some st1 \<Rightarrow>
                  Some (if dget (etym_data st1) ''sounds'' = None \<and> dget (base st1) ''sounds'' = None
                        then st1\<lparr>diags := diags st1
                                 @ [Warning ''no pronunciations found from pronunciation section'']\<rparr>
                        else st1))
           else Some st)
        else if startswith t ''Etymology'' then
          (case push_etym st of
             None \<Rightarrow> None
           | Some st1 \<Rightarrow>
               (case process_children e cfg cs (st1\<lparr>stack := stack st1 @ [t]\<rparr>) of
                  None \<Rightarrow> None
                | Some st2 \<Rightarrow> Some (st2\<lparr>stack := butlast (stack st2)\<rparr>)))
        else if pos_map e pos \<noteq> None then
          (case push_pos st of
             None \<Rightarrow> None
           | Some st1 \<Rightarrow>
               (case pos_map e pos of
                  None \<Rightarrow> None
                | Some dt \<Rightarrow>
                    (case pi_pos dt of
                       None \<Rightarrow> None
                     | Some pos' \<Rightarrow>
                         let st2 = st1\<lparr>diags := diags st1 @ pos_warnings t dt,
                                       pos_data := (case pi_tags dt of
                                                      None \<Rightarrow> pos_data st1
                                                    | Some tags \<Rightarrow>
                                                        data_extend (pos_data st1) ''tags'' tags)\<rparr>
                         in (case parse_part_of_speech e cs pos' st2 of
                               None \<Rightarrow> None
                             | Some st3 \<Rightarrow>
                                 (case process_children e cfg cs
                                         (st3\<lparr>stack := stack st3 @ [pos']\<rparr>) of
                                    None \<Rightarrow> None
                                  | Some st4 \<Rightarrow> Some (st4\<lparr>stack := butlast (stack st4)\<rparr>))))))
        else if t = ''Translations'' then
          append_to_scope e (translation_appends e (WikiNode k a as cs)) st
        else if t = ''Declension'' \<or> t = ''Conjugation'' then
          Some (parse_declension_conjugation e (WikiNode k a as cs) st)
        else if pos \<in> set [''hypernyms'', ''hyponyms'', ''antonyms'', ''synonyms'',
                             ''abbreviations'', ''proverbs''] then
          append_to_scope e (linkage_appends e pos (WikiNode k a as cs)) st
        else if pos = ''compounds'' then
          (if stack st = [] then None
           else if capture_compounds cfg
           then append_to_scope e (linkage_appends e ''compounds'' (WikiNode k a as cs)) st
           else Some st)
        else if pos = ''derived terms'' then
          append_to_scope e (linkage_appends e ''derived'' (WikiNode k a as cs)) st
        else if pos = ''related terms'' \<or> pos = ''related characters'' then
          append_to_scope e (linkage_appends e ''related'' (WikiNode k a as cs)) st
        else if t \<in> set [''Anagrams'', ''Further reading'', ''References'', ''Quotations'',
                           ''Descendants''] then Some st
        else
          (case process_children e cfg cs
                  (st\<lparr>section_counts := section_counts st @ [t], stack := stack st @ [t]\<rparr>) of
             None \<Rightarrow> None
           | Some st2 \<Rightarrow> Some (st2\<lparr>stack := butlast (stack st2)\<rparr>)))"

text \<open>\<^verbatim>\<open>parse_language\<close> on the children of the language node: the records it
  returns, read as dictionaries of values, and the diagnostics.\<close>

definition parse_language ::
  "ext \<Rightarrow> config \<Rightarrow> string \<Rightarrow> node list \<Rightarrow> string \<Rightarrow> string \<Rightarrow> (pdict list \<times> diag list) option" where
  "parse_language e cfg title children language lang_code =
     (let base0 = [(VStr ''word'', VStr title), (VStr ''lang'', VStr language),
                   (VStr ''lang_code'', VStr lang_code)];
          st0 = \<lparr>base = base0, sense_data = [], pos_data = [], etym_data = [], pos_datas = [],
                 etym_datas = [], page_datas = [], cells = [], stack = [''TOP''], diags = [],
                 section_counts = []\<rparr>
      in case process_children e cfg children st0 of
           None \<Rightarrow> None
         | Some st1 \<Rightarrow>
             (case push_etym (st1\<lparr>stack := butlast (stack st1)\<rparr>) of
                None \<Rightarrow> None
              | Some st2 \<Rightarrow>
                  (case merge_scope (page_datas st2) (base st2) (cells st2) of
                     None \<Rightarrow> None
                   | Some (ret, cs, ws) \<Rightarrow> Some (map (resolve cs) ret, diags st2 @ ws))))"

section \<open>A small renderer for examples\<close>

text \<open>A renderer that keeps the strings among the nodes and expands every template to
  nothing, a table of two parts of speech, and parsers of tags that store the text they
  are given.\<close>

definition text_of :: "node list \<Rightarrow> string" where
  "text_of ns = concat (map (\<lambda>n. case n of Text s \<Rightarrow> s | WikiNode k a as cs \<Rightarrow> []) ns)"

text \<open>The templates among some nodes, with their positional arguments.\<close>

fun template_call :: "node \<Rightarrow> (string \<times> pdict) list" where
  "template_call (WikiNode k a (Text name # args) cs) =
     (if k = TEMPLATE
      then [(name, zip (map (\<lambda>i. VInt (int i)) [1 ..< Suc (length args)])
                       (map (\<lambda>n. VStr (text_of [n])) args))]
      else [])"
| "template_call n = []"

definition children_of :: "node \<Rightarrow> node list" where
  "children_of n = (case n of Text s \<Rightarrow> [] | WikiNode k a as cs \<Rightarrow> cs)"

definition example_pos_map :: "string \<Rightarrow> pos_info option" where
  "example_pos_map s =
     (if s = ''noun'' \<or> s = ''verb''
      then Some \<lparr>pi_pos = Some s, pi_tags = None, pi_warning = None, pi_error = None\<rparr>
      else None)"

definition example_ext :: ext where
  "example_ext =
     \<lparr>render = (\<lambda>h ns. text_of ns),
      hook_calls = (\<lambda>h ns. concat (map template_call ns)),
      html_hook_calls = (\<lambda>h n. concat (map template_call (children_of n))),
      pos_map = example_pos_map,
      language_codes = [''en''],
      unescape = (\<lambda>s. s),
      parse_sense_tags = (\<lambda>q d. data_append d ''tags'' (VStr q)),
      parse_word_head = (\<lambda>pos text d. d),
      parse_pronunciation_tags = (\<lambda>q d. d),
      rx_leading_tags = (\<lambda>s. None),
      rx_tokyo = (\<lambda>s. None),
      rx_rhymes = (\<lambda>s. None),
      rx_ipa = (\<lambda>s. if startswith s ''/'' \<and> endswith s ''/'' then [s] else []),
      rx_syllabification = (\<lambda>s. None),
      linkage_appends = (\<lambda>f n. [(f, VDict [(VStr ''word'', VStr (text_of (children_of n)))])]),
      translation_appends = (\<lambda>n. [])\<rparr>"

definition example_config :: config where
  "example_config = \<lparr>capture_translations = True, capture_pronunciation = True,
                      capture_compounds = True, word = ''cat''\<rparr>"

definition heading :: "kind \<Rightarrow> string \<Rightarrow> node list \<Rightarrow> node" where
  "heading k t cs = WikiNode k [] [Text t] cs"

definition sense_list :: "string list \<Rightarrow> node" where
  "sense_list gs = WikiNode LIST ''#'' [] (map (\<lambda>g. WikiNode LIST_ITEM ''#'' [] [Text g]) gs)"

definition two_etymologies :: "node list" where
  "two_etymologies =
     [heading LEVEL3 ''Etymology 1''
        [heading LEVEL4 ''Pronunciation'' [Text ''/kat/''],
         heading LEVEL4 ''Noun'' [Text ''cat'', sense_list [''an animal'']]],
      heading LEVEL3 ''Etymology 2''
        [heading LEVEL4 ''Noun'' [Text ''cat'', sense_list [''a whip'']]]]"

definition etymology_open :: lang_state where
  "etymology_open =
     \<lparr>base = [(VStr ''word'', VStr ''cat''), (VStr ''lang'', VStr ''English''),
              (VStr ''lang_code'', VStr ''en'')],
      sense_data = [], pos_data = [], etym_data = [], pos_datas = [],
      etym_datas = [], page_datas = [], cells = [], stack = [''TOP'', ''Etymology 1''],
      diags = [], section_counts = []\<rparr>"

text \<open>For stating the properties. The titles of the sections whose children
  \<^verbatim>\<open>process_children\<close> does not walk: translations, inflection tables, linkages
  and the sections it passes over.\<close>

definition leaf_title :: "string \<Rightarrow> bool" where
  "leaf_title t =
     (t = ''Translations'' \<or> t = ''Declension'' \<or> t = ''Conjugation''
      \<or> lower t \<in> set [''hypernyms'', ''hyponyms'', ''antonyms'', ''synonyms'',
                          ''abbreviations'', ''proverbs'', ''compounds'', ''derived terms'',
                          ''related terms'', ''related characters'']
      \<or> t \<in> set [''Anagrams'', ''Further reading'', ''References'', ''Quotations'',
                    ''Descendants''])"

text \<open>The subsections of a section among which the walk opens no etymology, finds no
  sense list and meets no exception: a part-of-speech heading among them has a \<open>pos\<close>
  in its table entry and no sense list, down to any depth the walk reaches; a
  pronunciation section, when it is read, raises nothing.\<close>

fun quiet_nodes :: "ext \<Rightarrow> config \<Rightarrow> node list \<Rightarrow> bool"
  and quiet_node :: "ext \<Rightarrow> config \<Rightarrow> node \<Rightarrow> bool" where
  "quiet_nodes e cfg [] = True"
| "quiet_nodes e cfg (n # ns) = (quiet_node e cfg n \<and> quiet_nodes e cfg ns)"
| "quiet_node e cfg (Text s) = True"
| "quiet_node e cfg (WikiNode k a as cs) =
     (if \<not> is_sublevel k then True
      else if render e no_hook as = ''Pronunciation''
      then \<not> capture_pronunciation cfg \<or> pronunciation_appends e cs \<noteq> None
      else if startswith (render e no_hook as) ''Etymology'' then False
      else (case pos_map e (lower (render e no_hook as)) of
              Some dt \<Rightarrow>
                pi_pos dt \<noteq> None \<and> snd (scan_pos cs [] True) = None \<and> quiet_nodes e cfg cs
            | None \<Rightarrow> leaf_title (render e no_hook as) \<or> quiet_nodes e cfg cs))"

text \<open>No record is added between two states of the walk: both buffers of senses are
  empty afterwards, the records collected so far are the same, and the shared lists and
  the diagnostics have only grown.\<close>

definition same_records :: "lang_state \<Rightarrow> lang_state \<Rightarrow> bool" where
  "same_records st st' =
     (sense_data st' = [] \<and> pos_datas st' = []
      \<and> etym_datas st' = etym_datas st \<and> page_datas st' = page_datas st
      \<and> stack st' = stack st
      \<and> prefix (cells st) (cells st') \<and> prefix (diags st) (diags st'))"

text \<open>A state of the walk in which one sense of a verb waits in the sense buffer, the
  state after the flush of the verb, and the children of a section that has an inflection
  table, a linkage section and notes with a pronunciation, but no list.\<close>

definition verb_pending :: lang_state where
  "verb_pending =
     \<lparr>base = [(VStr ''word'', VStr ''cat''), (VStr ''lang'', VStr ''English''),
              (VStr ''lang_code'', VStr ''en'')],
      sense_data = [(VStr ''glosses'', VList [VStr ''to hoist''])],
      pos_data = [(VStr ''pos'', VStr ''verb'')], etym_data = [], pos_datas = [],
      etym_datas = [], page_datas = [], cells = [], stack = [''TOP''], diags = [],
      section_counts = []\<rparr>"

definition verb_flushed :: lang_state where
  "verb_flushed =
     verb_pending\<lparr>sense_data := [], pos_data := [],
       etym_datas := [[(VStr ''glosses'', Own (VList [VStr ''to hoist''])),
                       (VStr ''pos'', Own (VStr ''verb''))]]\<rparr>"

definition no_list_section :: "node list" where
  "no_list_section =
     [Text ''cat'',
      heading LEVEL4 ''Declension''
        [WikiNode TEMPLATE [] [Text ''fi-decl-kala'', Text ''kal''] []],
      heading LEVEL4 ''Synonyms'' [Text ''moggy''],
      heading LEVEL4 ''Usage notes''
        [Text ''informal'', heading LEVEL5 ''Pronunciation'' [Text ''/kat/'']]]"

text \<open>A part of speech with two senses and synonyms of its own, under an etymology
  that has synonyms too.\<close>

definition synonyms_twice :: "node list" where
  "synonyms_twice =
     [heading LEVEL3 ''Etymology''
        [heading LEVEL4 ''Synonyms'' [Text ''foo''],
         heading LEVEL4 ''Noun''
           [Text ''cat'', sense_list [''an animal'', ''a person''],
            heading LEVEL5 ''Synonyms'' [Text ''bar'']]]]"

section \<open>Properties\<close>

subsection \<open>Colour values\<close>

lemma color_value_hash: "color_value (CHR ''#'' # v) = CHR ''#'' # v"
  by (simp add: color_value_def match_hex6_def match_hex3_def is_hex_def)

lemma color_value_idem: "color_value (color_value v) = color_value v"
  by (simp add: color_value_def color_value_hash)
     (simp add: match_hex6_def match_hex3_def is_hex_def)

lemma color_value_doubled:
  assumes "length v = 3" and "list_all is_hex v"
  shows "color_value v = color_value (doubled v)"
proof -
  from assms(1) obtain a b c where v: "v = [a, b, c]"
    by (cases v; simp; rename_tac x xs; case_tac xs; simp; rename_tac y ys;
        case_tac ys; simp)
  with assms(2) show ?thesis
    by (simp add: color_value_def match_hex6_def match_hex3_def doubled_def at_end_def)
qed


text \<open>C8, as the code has it. The colour panel stores a six-digit value behind a
  \<open>#\<close> and a three-digit value with every digit doubled behind a \<open>#\<close>, so a
  three-digit value and its six-digit expansion are stored as the same string, and
  normalising a stored value again changes nothing. The digits are stored in the letter
  case they were written in: no case conversion takes place.\<close>

theorem color_panel_normalization:
  "color_value (color_value v) = color_value v
   \<and> (length w = 3 \<and> list_all is_hex w \<longrightarrow>
        color_value w = CHR ''#'' # doubled w
      \<and> color_value (doubled w) = CHR ''#'' # doubled w)
   \<and> color_panel cv data t =
        data_extend data ''color'' (map (\<lambda>v. VStr (color_value v)) (t_vec cv t))"
proof (intro conjI impI)
  show "color_value (color_value v) = color_value v" by (rule color_value_idem)
next
  assume a: "length w = 3 \<and> list_all is_hex w"
  then obtain a b c where w: "w = [a, b, c]"
    by (cases w; simp; rename_tac x xs; case_tac xs; simp; rename_tac y ys;
        case_tac ys; simp)
  with a show "color_value w = CHR ''#'' # doubled w"
    by (simp add: color_value_def match_hex6_def match_hex3_def doubled_def at_end_def)
  from a show "color_value (doubled w) = CHR ''#'' # doubled w"
    using color_value_doubled[of w] \<open>color_value w = CHR ''#'' # doubled w\<close> by simp
next
  show "color_panel cv data t =
        data_extend data ''color'' (map (\<lambda>v. VStr (color_value v)) (t_vec cv t))"
    by (simp add: color_panel_def data_extend_def fold_map comp_def)
qed

theorem color_panel_normalization_witness:
  "length ''aBc'' = 3 \<and> list_all is_hex ''aBc''
   \<and> color_value ''aBc'' = ''#aaBBcc'' \<and> color_value ''aaBBcc'' = ''#aaBBcc''
   \<and> color_value ''#aaBBcc'' = ''#aaBBcc''"
  using color_panel_normalization[of "''aBc''" "''aBc''" id "[]" "\<lparr>tname = ''color panel'', targs = []\<rparr>"]
  by (simp add: is_hex_def doubled_def color_value_hash)

text \<open>C8, as stated, fails: letter case is not normalised. The same colour written in
  capital and in small digits is stored as two different values.\<close>

theorem color_case_counterexample:
  "color_panel id [] \<lparr>tname = ''color panel'', targs = [(''1'', ''ABC'')]\<rparr>
     = [(VStr ''color'', VList [VStr ''#AABBCC''])]
   \<and> color_panel id [] \<lparr>tname = ''color panel'', targs = [(''1'', ''abc'')]\<rparr>
     = [(VStr ''color'', VList [VStr ''#aabbcc''])]
   \<and> color_value ''ABC'' \<noteq> color_value ''abc''"
  by (simp add: color_panel_def t_vec_def t_arg_def get_arg_def positional_names_def str_int_def
        pop_empty_def strip_def lstrip_def rstrip_def is_space_def data_append_def dget_def
        dset_def color_value_def match_hex6_def match_hex3_def is_hex_def at_end_def)

subsection \<open>Merging\<close>

lemma merge_key_map:
  assumes "merge_key (k, v) (data, ws) = Some (data', ws')"
  shows "map_of data' = (map_of data)(k \<mapsto> merged_value (map_of data k) v)"
    and "ws' = ws @ merge_conflicts data [(k, v)]"
  using assms
  by (auto simp: merge_key_def merged_value_def merge_conflicts_def update_conv' is_list_def
           split: option.splits val.splits if_splits)

lemma merge_conflicts_cong:
  assumes "\<forall>k \<in> fst ` set parent. map_of d1 k = map_of d2 k"
  shows "merge_conflicts d1 parent = merge_conflicts d2 parent"
  using assms by (induction parent) (auto simp: merge_conflicts_def)

lemma merge_conflicts_Cons:
  "merge_conflicts d (kv # parent) = merge_conflicts d [kv] @ merge_conflicts d parent"
  by (simp add: merge_conflicts_def)

lemma merge_items_result:
  assumes "distinct (map fst parent)"
    and "merge_items parent (data, ws) = Some (data', ws')"
  shows "map_of data' k =
           (case map_of parent k of None \<Rightarrow> map_of data k
            | Some v \<Rightarrow> Some (merged_value (map_of data k) v))
         \<and> ws' = ws @ merge_conflicts data parent"
  using assms
proof (induction parent arbitrary: data ws)
  case Nil
  then show ?case by (simp add: merge_conflicts_def)
next
  case (Cons kv parent)
  obtain k0 v0 where kv: "kv = (k0, v0)" by (cases kv)
  from Cons.prems(2) obtain d1 w1 where
    step: "merge_key (k0, v0) (data, ws) = Some (d1, w1)"
    and rest: "merge_items parent (d1, w1) = Some (data', ws')"
    by (auto simp: kv split: option.splits)
  note m = merge_key_map[OF step]
  from Cons.prems(1) have dist: "distinct (map fst parent)" and notin: "k0 \<notin> fst ` set parent"
    by (auto simp: kv)
  from Cons.IH[OF dist rest]
  have ih: "map_of data' k =
           (case map_of parent k of None \<Rightarrow> map_of d1 k
            | Some v \<Rightarrow> Some (merged_value (map_of d1 k) v))"
    and ws: "ws' = w1 @ merge_conflicts d1 parent" by auto
  have same: "\<forall>k \<in> fst ` set parent. map_of d1 k = map_of data k"
    using notin m(1) by auto
  have c: "merge_conflicts d1 parent = merge_conflicts data parent"
    by (rule merge_conflicts_cong[OF same])
  have none: "map_of parent k0 = None"
    using notin by (simp add: map_of_eq_None_iff)
  show ?case
  proof (cases "k = k0")
    case True
    then show ?thesis using ih none m ws c
      by (simp add: kv merge_conflicts_Cons[of data "(k0,v0)" parent])
  next
    case False
    then show ?thesis using ih m ws c
      by (simp add: kv merge_conflicts_Cons[of data "(k0,v0)" parent] split: option.splits)
  qed
qed

lemma merge_items_total:
  assumes "distinct (map fst parent)"
    and "\<forall>(k, v) \<in> set parent. \<forall>xs. map_of data k = Some (VList xs) \<longrightarrow> py_iter v \<noteq> None"
  shows "merge_items parent (data, ws) \<noteq> None"
  using assms
proof (induction parent arbitrary: data ws)
  case Nil
  then show ?case by simp
next
  case (Cons kv parent)
  obtain k0 v0 where kv: "kv = (k0, v0)" by (cases kv)
  have "merge_key (k0, v0) (data, ws) \<noteq> None"
    using Cons.prems(2) by (auto simp: kv merge_key_def split: option.splits val.splits)
  then obtain d1 w1 where
    step: "merge_key (k0, v0) (data, ws) = Some (d1, w1)"
    by auto
  note m = merge_key_map[OF step]
  from Cons.prems(1) have dist: "distinct (map fst parent)" and notin: "k0 \<notin> fst ` set parent"
    by (auto simp: kv)
  have aux: "py_iter b \<noteq> None"
    if ab: "(a, b) \<in> set parent" and l: "map_of d1 a = Some (VList xs)" for a b xs
  proof -
    from ab notin have "a \<noteq> k0" by force
    with m(1) l have "map_of data a = Some (VList xs)" by simp
    with Cons.prems(2) ab show "py_iter b \<noteq> None" by (auto simp: kv)
  qed
  have "\<forall>(k, v) \<in> set parent. \<forall>xs. map_of d1 k = Some (VList xs) \<longrightarrow> py_iter v \<noteq> None"
    using aux by blast
  from Cons.IH[OF dist this] show ?case using step by (simp add: kv)
qed


text \<open>C3. Merging a child scope into its parent, key by key of the parent: a key the
  child lacks is copied from the parent; a key whose value in the child is a list is
  extended by the parent's list; any other key the child already has keeps the child's
  value, and when that value differs from the parent's a warning is recorded. The merge
  returns (no exception) and keys the parent does not have are left alone. The one way to
  raise, a list in the child against a parent value that cannot be iterated, is excluded
  by the second premise.\<close>

theorem merge_base_first_value_wins:
  assumes "distinct (map fst parent)"
    and "\<forall>(k, v) \<in> set parent. \<forall>xs. map_of data k = Some (VList xs) \<longrightarrow> py_iter v \<noteq> None"
  shows "\<exists>data' ws. merge_base data parent = Some (data', ws)
     \<and> (\<forall>k v. map_of parent k = Some v \<longrightarrow>
           (map_of data k = None \<longrightarrow> map_of data' k = Some v)
         \<and> (\<forall>xs ys. map_of data k = Some (VList xs) \<and> v = VList ys \<longrightarrow>
               map_of data' k = Some (VList (xs @ ys)))
         \<and> (\<forall>x. map_of data k = Some x \<and> \<not> is_list x \<longrightarrow>
               map_of data' k = Some x
             \<and> (\<not> py_eq x v \<longrightarrow> ConflictingValues k x v \<in> set ws)))
     \<and> (\<forall>k. map_of parent k = None \<longrightarrow> map_of data' k = map_of data k)
     \<and> ws = merge_conflicts data parent"
proof -
  from merge_items_total[OF assms, of "[]"] obtain data' ws
    where r: "merge_items parent (data, []) = Some (data', ws)" by auto
  note res = merge_items_result[OF assms(1) r]
  have ws: "ws = merge_conflicts data parent" using res by simp
  have conf: "ConflictingValues k x v \<in> set ws"
    if "map_of parent k = Some v" "map_of data k = Some x" "\<not> is_list x" "\<not> py_eq x v"
    for k x v
  proof -
    from that(1) have "(k, v) \<in> set parent" by (rule map_of_SomeD)
    with that(2-4) show ?thesis
      unfolding ws merge_conflicts_def by force
  qed
  have vals: "map_of data' k =
           (case map_of parent k of None \<Rightarrow> map_of data k
            | Some v \<Rightarrow> Some (merged_value (map_of data k) v))" for k
    using res[of k] by simp
  show ?thesis
    apply (rule exI[of _ data'], rule exI[of _ ws])
    apply (intro conjI allI impI)
         apply (simp add: merge_base_def r)
        apply (simp add: vals merged_value_def)
       apply (simp add: vals merged_value_def py_iter_def)
      apply (clarsimp simp: vals merged_value_def is_list_def split: val.splits)
     apply (erule conjE, rule conf, assumption+)
    apply (simp add: vals)
    apply (rule ws)
    done
qed

theorem merge_base_first_value_wins_witness:
  "distinct (map fst [(VStr ''pos'', VStr ''verb''), (VStr ''tags'', VList [VStr ''b'']),
                      (VStr ''word'', VStr ''w'')])
   \<and> (\<exists>data' ws.
        merge_base [(VStr ''pos'', VStr ''noun''), (VStr ''tags'', VList [VStr ''a''])]
          [(VStr ''pos'', VStr ''verb''), (VStr ''tags'', VList [VStr ''b'']),
           (VStr ''word'', VStr ''w'')] = Some (data', ws)
      \<and> map_of data' (VStr ''word'') = Some (VStr ''w'')
      \<and> map_of data' (VStr ''tags'') = Some (VList [VStr ''a'', VStr ''b''])
      \<and> map_of data' (VStr ''pos'') = Some (VStr ''noun'')
      \<and> ws = [ConflictingValues (VStr ''pos'') (VStr ''noun'') (VStr ''verb'')])"
proof -
  let ?B = "[(VStr ''pos'', VStr ''verb''), (VStr ''tags'', VList [VStr ''b'']),
             (VStr ''word'', VStr ''w'')]"
  let ?D = "[(VStr ''pos'', VStr ''noun''), (VStr ''tags'', VList [VStr ''a''])]"
  have h1: "distinct (map fst ?B)" by simp
  have h2: "\<forall>(k, v) \<in> set ?B. \<forall>xs. map_of ?D k = Some (VList xs) \<longrightarrow> py_iter v \<noteq> None"
    by (simp add: py_iter_def)
  from merge_base_first_value_wins[OF h1 h2] obtain data' ws where
    r: "merge_base ?D ?B = Some (data', ws)"
    and v: "\<And>k v. map_of ?B k = Some v \<Longrightarrow>
           (map_of ?D k = None \<longrightarrow> map_of data' k = Some v)
         \<and> (\<forall>xs ys. map_of ?D k = Some (VList xs) \<and> v = VList ys \<longrightarrow>
               map_of data' k = Some (VList (xs @ ys)))
         \<and> (\<forall>x. map_of ?D k = Some x \<and> \<not> is_list x \<longrightarrow>
               map_of data' k = Some x
             \<and> (\<not> py_eq x v \<longrightarrow> ConflictingValues k x v \<in> set ws))"
    and w: "ws = merge_conflicts ?D ?B"
    by blast
  have a: "map_of data' (VStr ''word'') = Some (VStr ''w'')"
    using v[of "VStr ''word''" "VStr ''w''"] by simp
  have b: "map_of data' (VStr ''tags'') = Some (VList [VStr ''a'', VStr ''b''])"
    using v[of "VStr ''tags''" "VList [VStr ''b'']"] by simp
  have c: "map_of data' (VStr ''pos'') = Some (VStr ''noun'')"
    using v[of "VStr ''pos''" "VStr ''verb''"] by (simp add: is_list_def)
  have d: "ws = [ConflictingValues (VStr ''pos'') (VStr ''noun'') (VStr ''verb'')]"
    unfolding w by (simp add: merge_conflicts_def is_list_def)
  from h1 r a b c d show ?thesis by blast
qed

subsection \<open>Linkage edges\<close>

lemma dget_dset: "dget (dset d k v) k' = (if k = k' then Some v else dget d k')"
  by (simp add: dget_def dset_def update_conv')

lemma field_list_data_append:
  "field_list (data_append d k v) k' = (if k = k' then field_list d k @ [v] else field_list d k')"
  by (simp add: field_list_def data_append_def dget_dset)

lemma field_list_fold_append:
  "field_list (fold (\<lambda>c d. data_append d (f c) (g c)) cs d) k
     = field_list d k @ map g (filter (\<lambda>c. f c = k) cs)"
  by (induction cs arbitrary: d) (auto simp: field_list_data_append)

lemma add_call_eq:
  "add_call c (A, d) =
     (case call_key c of
        None \<Rightarrow> (A, d)
      | Some k \<Rightarrow> if k \<in> A then (A, d)
                  else (insert k A, data_append d (c_kind c) (call_edge c)))"
  by (simp add: add_call_def add_linkage_def call_key_def call_edge_def Let_def
           split: option.splits)

lemma fold_add_call:
  "fold add_call cs (A, d) =
     (A \<union> {k. \<exists>c \<in> set cs. call_key c = Some k},
      fold (\<lambda>c d. data_append d (c_kind c) (call_edge c)) (first_requests A cs) d)"
proof (induction cs arbitrary: A d)
  case Nil
  then show ?case by simp
next
  case (Cons c cs)
  show ?case
  proof (cases "call_key c")
    case None
    then show ?thesis by (simp add: add_call_eq Cons.IH)
  next
    case (Some k)
    then show ?thesis by (auto simp: add_call_eq Cons.IH)
  qed
qed

lemma first_requests_keys:
  "set (map call_key (first_requests A cs)) = Some ` ({k. \<exists>c \<in> set cs. call_key c = Some k} - A)"
proof (induction cs arbitrary: A)
  case Nil
  then show ?case by simp
next
  case (Cons c cs)
  show ?case
  proof (cases "call_key c")
    case None
    then show ?thesis using Cons.IH[of A] by simp
  next
    case (Some k)
    then show ?thesis using Cons.IH[of A] Cons.IH[of "insert k A"] by auto
  qed
qed

lemma first_requests_distinct: "distinct (map call_key (first_requests A cs))"
proof (induction cs arbitrary: A)
  case Nil
  then show ?case by simp
next
  case (Cons c cs)
  show ?case
  proof (cases "call_key c")
    case None
    then show ?thesis using Cons.IH[of A] by simp
  next
    case (Some k)
    have "Some k \<notin> set (map call_key (first_requests (insert k A) cs))"
      unfolding first_requests_keys by auto
    then show ?thesis using Some Cons.IH[of A] Cons.IH[of "insert k A"] by simp
  qed
qed

text \<open>C7, as the code has it. Within one invocation of the linkage extractor (one set
  \<open>added\<close>, created empty), the edges appended to the output are those of the calls
  that ask for a key (kind, word, sense text, sorted qualifiers) not asked for before, in
  the order of the calls: under each kind the output list grows by exactly these edges, no
  key is appended twice, and every key asked for is appended. The sense component of the
  key is the sense text in force at the call as it is, so that no sense text
  (\<^verbatim>\<open>None\<close>) and the empty sense text are two keys, although the edge has a
  \<open>sense\<close> field for neither.\<close>

theorem linkage_edges_deduplicated:
  "parse_linkage_calls cs data
     = fold (\<lambda>c d. data_append d (c_kind c) (call_edge c)) (first_requests {} cs) data
   \<and> (\<forall>kind. field_list (parse_linkage_calls cs data) kind
        = field_list data kind
          @ map call_edge (filter (\<lambda>c. c_kind c = kind) (first_requests {} cs)))
   \<and> distinct (map call_key (first_requests {} cs))
   \<and> set (map call_key (first_requests {} cs)) = set (map call_key cs) - {None}"
proof -
  have a: "parse_linkage_calls cs data
     = fold (\<lambda>c d. data_append d (c_kind c) (call_edge c)) (first_requests {} cs) data"
    by (simp add: parse_linkage_calls_def fold_add_call)
  have b: "set (map call_key (first_requests {} cs)) = set (map call_key cs) - {None}"
  proof -
    have "Some ` {k. \<exists>c \<in> set cs. call_key c = Some k} = call_key ` set cs - {None}"
    proof (intro set_eqI iffI)
      fix x assume "x \<in> Some ` {k. \<exists>c \<in> set cs. call_key c = Some k}"
      then obtain k c where "x = Some k" "c \<in> set cs" "call_key c = Some k" by auto
      then show "x \<in> call_key ` set cs - {None}" by force
    next
      fix x assume "x \<in> call_key ` set cs - {None}"
      then obtain c k where "c \<in> set cs" "call_key c = x" "x = Some k" by auto
      then show "x \<in> Some ` {k. \<exists>c \<in> set cs. call_key c = Some k}" by auto
    qed
    then show ?thesis unfolding first_requests_keys by simp
  qed
  show ?thesis
    using a b first_requests_distinct[of "{}" cs] by (simp add: field_list_fold_append)
qed

theorem linkage_edges_deduplicated_witness:
  "field_list (parse_linkage_calls
      [\<lparr>c_sense = None, c_quals = [], c_kind = ''synonyms'', c_word = ''foo''\<rparr>,
       \<lparr>c_sense = None, c_quals = [], c_kind = ''synonyms'', c_word = '' foo.''\<rparr>,
       \<lparr>c_sense = None, c_quals = [''rare''], c_kind = ''synonyms'', c_word = ''foo''\<rparr>] [])
     ''synonyms''
   = [VDict [(VStr ''word'', VStr ''foo'')],
      VDict [(VStr ''word'', VStr ''foo''), (VStr ''tags'', VList [VStr ''rare''])]]"
proof -
  let ?cs = "[\<lparr>c_sense = None, c_quals = [], c_kind = ''synonyms'', c_word = ''foo''\<rparr>,
       \<lparr>c_sense = None, c_quals = [], c_kind = ''synonyms'', c_word = '' foo.''\<rparr>,
       \<lparr>c_sense = None, c_quals = [''rare''], c_kind = ''synonyms'', c_word = ''foo''\<rparr>]"
  have w1: "link_word ''foo'' = Some ''foo''"
    by (simp add: link_word_def strip_def lstrip_def rstrip_def is_space_def startswith_def
          endswith_def lower_def lower_char_def Let_def)
  have w2: "link_word '' foo.'' = Some ''foo''"
    by (simp add: link_word_def strip_def lstrip_def rstrip_def is_space_def startswith_def
          endswith_def lower_def lower_char_def Let_def)
  from linkage_edges_deduplicated[of ?cs "[]"]
  have "field_list (parse_linkage_calls ?cs []) ''synonyms''
        = field_list [] ''synonyms''
          @ map call_edge (filter (\<lambda>c. c_kind c = ''synonyms'') (first_requests {} ?cs))"
    by blast
  then show ?thesis
    by (simp add: call_key_def call_edge_def w1 w2 link_edge_def field_list_def dget_def)
qed

text \<open>C7, as stated, fails: two edges that are the same in kind, word, sense and
  qualifiers are both appended when one call was made with no sense text and the other
  with the empty sense text. A link template \<open>l\<close> is read with no sense text in force;
  a \<open>syn2\<close> template without a \<open>title\<close> argument sets the sense text to the empty
  string before its words are added.\<close>

theorem linkage_duplicate_edges:
  "parse_linkage_calls
      [\<lparr>c_sense = None, c_quals = [], c_kind = ''synonyms'', c_word = ''foo''\<rparr>,
       \<lparr>c_sense = Some [], c_quals = [], c_kind = ''synonyms'', c_word = ''foo''\<rparr>] []
   = [(VStr ''synonyms'',
       VList [VDict [(VStr ''word'', VStr ''foo'')], VDict [(VStr ''word'', VStr ''foo'')]])]"
  by code_simp

subsection \<open>Translations and their sense marker\<close>

lemma field_list_parse_alter:
  "parse_alter cv t st = Some st' \<Longrightarrow>
     field_list (a_data st') ''translations'' = field_list (a_data st) ''translations''
     \<and> translation_sense st' = translation_sense st"
  by (auto simp: parse_alter_def Let_def field_list_fold_append split: option.splits if_splits)

lemma parse_any_template_translations:
  assumes "parse_any_template cfg cv sectitle t st = Some st'"
  shows "field_list (a_data st') ''translations''
           = field_list (a_data st) ''translations''
             @ (if capture_translations cfg \<and> is_translation_entry cv t
                then [translation_entry cv t (translation_sense st)] else [])"
    and "translation_sense st' =
           (if is_translation_entry cv t then translation_sense st
            else next_marker cv t (translation_sense st))"
  using assms
  by (auto simp: parse_any_template_def Let_def is_translation_entry_def next_marker_def
        field_list_data_append dest: field_list_parse_alter
        split: if_splits option.splits prod.splits)

lemma parse_any_template_fails:
  "parse_any_template cfg cv sectitle t st = None \<Longrightarrow> strip (tname t) = ''alter''"
  by (auto simp: parse_any_template_def Let_def split: if_splits option.splits prod.splits)

lemma parse_any_templates_translations:
  "parse_any_templates cfg cv sectitle ts st = Some st' \<Longrightarrow>
     field_list (a_data st') ''translations''
       = field_list (a_data st) ''translations''
         @ (if capture_translations cfg
            then map (\<lambda>(t, m). translation_entry cv t m)
                     (marked_entries cv (translation_sense st) ts)
            else [])"
proof (induction ts arbitrary: st)
  case Nil
  then show ?case by simp
next
  case (Cons t ts)
  from Cons.prems obtain st1 where
    s1: "parse_any_template cfg cv sectitle t st = Some st1"
    and s2: "parse_any_templates cfg cv sectitle ts st1 = Some st'"
    by (auto split: option.splits)
  note a = parse_any_template_translations[OF s1]
  from Cons.IH[OF s2] show ?case
    by (simp add: a)
qed

lemma parse_any_templates_fails:
  "parse_any_templates cfg cv sectitle ts st = None \<Longrightarrow> \<exists>t \<in> set ts. strip (tname t) = ''alter''"
  by (induction ts arbitrary: st) (auto split: option.splits dest: parse_any_template_fails)

lemma field_list_wikilinks:
  "field_list (fold parse_any_wikilink links d) ''translations'' = field_list d ''translations''"
  by (induction links arbitrary: d)
     (auto simp: parse_any_wikilink_def Let_def field_list_data_append)

lemma translation_entry_sense:
  "vget (translation_entry cv t m) ''sense''
     = (case m of None \<Rightarrow> None | Some S \<Rightarrow> if S = [] then None else Some (VStr S))"
  by (simp add: translation_entry_def vget_def Let_def split: option.splits)

text \<open>C6. The templates of a section are processed in the order given. A
  \<open>trans-top\<close> sets the sense marker to its first argument, a \<open>trans-bottom\<close> clears
  it, nothing else changes it. The translations recorded are the \<open>t\<close> and \<open>t+\<close>
  templates that have a language and a word, in order, each with the marker in force
  where it stands: its \<open>sense\<close> field is that marker, and it has no \<open>sense\<close> field
  when no marker is in force (before any \<open>trans-top\<close>, after a \<open>trans-bottom\<close>) or
  when the marker is the empty text of a \<open>trans-top\<close> without argument. Nothing is
  recorded when translations are not captured. The function raises only through an
  \<open>alter\<close> template.\<close>

theorem translation_sense_scoping:
  "(case parse_any cfg cv data sectitle ts links of
      None \<Rightarrow> \<exists>t \<in> set ts. strip (tname t) = ''alter''
    | Some (data', ds) \<Rightarrow>
        field_list data' ''translations''
          = field_list data ''translations''
            @ (if capture_translations cfg
               then map (\<lambda>(t, m). translation_entry cv t m) (marked_entries cv None ts)
               else []))
   \<and> (\<forall>(t, m) \<in> set (marked_entries cv None ts).
        vget (translation_entry cv t m) ''sense''
          = (case m of None \<Rightarrow> None | Some S \<Rightarrow> if S = [] then None else Some (VStr S)))"
proof (intro conjI)
  let ?st0 = "\<lparr>a_data = data, translation_sense = None, brk = None, a_diags = []\<rparr>"
  show "case parse_any cfg cv data sectitle ts links of
      None \<Rightarrow> \<exists>t \<in> set ts. strip (tname t) = ''alter''
    | Some (data', ds) \<Rightarrow>
        field_list data' ''translations''
          = field_list data ''translations''
            @ (if capture_translations cfg
               then map (\<lambda>(t, m). translation_entry cv t m) (marked_entries cv None ts)
               else [])"
  proof (cases "parse_any_templates cfg cv sectitle ts ?st0")
    case None
    then show ?thesis
      using parse_any_templates_fails[OF None] by (simp add: parse_any_def)
  next
    case (Some st)
    from parse_any_templates_translations[OF Some] show ?thesis
      by (simp add: parse_any_def Some field_list_wikilinks)
  qed
next
  show "\<forall>(t, m) \<in> set (marked_entries cv None ts).
        vget (translation_entry cv t m) ''sense''
          = (case m of None \<Rightarrow> None | Some S \<Rightarrow> if S = [] then None else Some (VStr S))"
    by (simp add: translation_entry_sense split: prod.splits)
qed


lemma t_vec_eval:
  "t_vec id \<lparr>tname = n, targs = [(''1'', a), (''2'', b)]\<rparr> = pop_empty [a, b]"
  by (simp add: t_vec_def t_arg_def get_arg_def positional_names_def str_int_def
        strip_def lstrip_def rstrip_def is_space_def pop_empty_def)

lemma t_arg_eval:
  "t_arg id \<lparr>tname = n, targs = [(''1'', a)]\<rparr> ''1'' = a"
  "t_arg id \<lparr>tname = n, targs = [(''1'', a), (''2'', b)]\<rparr> ''alt'' = []"
  "t_arg id \<lparr>tname = n, targs = [(''1'', a), (''2'', b)]\<rparr> ''tr'' = []"
  "t_arg id \<lparr>tname = n, targs = [(''1'', a), (''2'', b)]\<rparr> ''sc'' = []"
  by (simp_all add: t_arg_def get_arg_def strip_def lstrip_def rstrip_def is_space_def)

theorem translation_sense_scoping_witness:
  "\<exists>data' ds.
     parse_any \<lparr>capture_translations = True, capture_pronunciation = True,
                 capture_compounds = True, word = ''house''\<rparr> id [] ''translations''
       [\<lparr>tname = ''trans-top'', targs = [(''1'', ''sense A'')]\<rparr>,
        \<lparr>tname = ''t'', targs = [(''1'', ''de''), (''2'', ''Haus'')]\<rparr>,
        \<lparr>tname = ''trans-bottom'', targs = []\<rparr>,
        \<lparr>tname = ''t+'', targs = [(''1'', ''de''), (''2'', ''Heim'')]\<rparr>] []
       = Some (data', ds)
     \<and> field_list data' ''translations''
         = [VDict [(VStr ''lang'', VStr ''de''), (VStr ''word'', VStr ''Haus''),
                   (VStr ''sense'', VStr ''sense A'')],
            VDict [(VStr ''lang'', VStr ''de''), (VStr ''word'', VStr ''Heim'')]]"
proof -
  let ?cfg = "\<lparr>capture_translations = True, capture_pronunciation = True,
                 capture_compounds = True, word = ''house''\<rparr>"
  let ?ts = "[\<lparr>tname = ''trans-top'', targs = [(''1'', ''sense A'')]\<rparr>,
        \<lparr>tname = ''t'', targs = [(''1'', ''de''), (''2'', ''Haus'')]\<rparr>,
        \<lparr>tname = ''trans-bottom'', targs = []\<rparr>,
        \<lparr>tname = ''t+'', targs = [(''1'', ''de''), (''2'', ''Heim'')]\<rparr>]"
  have s: "strip ''trans-top'' = ''trans-top''" "strip ''t'' = ''t''"
    "strip ''trans-bottom'' = ''trans-bottom''" "strip ''t+'' = ''t+''"
    by (simp_all add: strip_def lstrip_def rstrip_def is_space_def)
  have me: "marked_entries id None ?ts
      = [(\<lparr>tname = ''t'', targs = [(''1'', ''de''), (''2'', ''Haus'')]\<rparr>, Some ''sense A''),
         (\<lparr>tname = ''t+'', targs = [(''1'', ''de''), (''2'', ''Heim'')]\<rparr>, None)]"
    by (simp add: is_translation_entry_def next_marker_def s t_vec_eval t_arg_eval pop_empty_def)
  note inst = translation_sense_scoping[where cfg = ?cfg and cv = id and data = "[]"
        and sectitle = "''translations''" and ts = ?ts and links = "[]"]
  have "parse_any ?cfg id [] ''translations'' ?ts [] \<noteq> None"
  proof
    assume n: "parse_any ?cfg id [] ''translations'' ?ts [] = None"
    from inst have "\<exists>t \<in> set ?ts. strip (tname t) = ''alter''"
      unfolding n by simp
    then show False by (simp add: s)
  qed
  then obtain data' ds where r: "parse_any ?cfg id [] ''translations'' ?ts [] = Some (data', ds)"
    by auto
  from inst r
  have fl: "field_list data' ''translations''
          = field_list [] ''translations''
            @ map (\<lambda>(t, m). translation_entry id t m) (marked_entries id None ?ts)"
    by simp
  have e: "field_list [] ''translations'' = []"
    by (simp add: field_list_def dget_def)
  have "field_list data' ''translations''
         = [VDict [(VStr ''lang'', VStr ''de''), (VStr ''word'', VStr ''Haus''),
                   (VStr ''sense'', VStr ''sense A'')],
            VDict [(VStr ''lang'', VStr ''de''), (VStr ''word'', VStr ''Heim'')]]"
    unfolding fl me e
    by (simp add: translation_entry_def t_vec_eval t_arg_eval pop_empty_def)
  with r show ?thesis by blast
qed

subsection \<open>The groups of \<open>by_lang\<close>\<close>

lemma group_add_props:
  assumes "distinct (map fst g)"
  shows "distinct (map fst (group_add g k a))"
    and "set (concat (map snd (group_add g k a))) = insert a (set (concat (map snd g)))"
    and "distinct (concat (map snd g)) \<Longrightarrow> a \<notin> set (concat (map snd g))
           \<Longrightarrow> distinct (concat (map snd (group_add g k a)))"
proof -
  show "distinct (map fst (group_add g k a))"
    using assms by (auto simp: group_add_def distinct_update map_of_eq_None_iff split: option.splits)
  have upd: "set (concat (map snd (AList.update k (ids @ [a]) g')))
               = insert a (set (concat (map snd g')))
             \<and> (distinct (concat (map snd g')) \<longrightarrow> a \<notin> set (concat (map snd g'))
                  \<longrightarrow> distinct (concat (map snd (AList.update k (ids @ [a]) g'))))"
    if "map_of g' k = Some ids" "distinct (map fst g')" for g' ids
    using that
  proof (induction g')
    case Nil
    then show ?case by simp
  next
    case (Cons p g')
    obtain k' v' where p: "p = (k', v')" by (cases p)
    show ?case
    proof (cases "k' = k")
      case True
      with Cons.prems p show ?thesis by auto
    next
      case False
      with Cons.prems p have m: "map_of g' k = Some ids" and d: "distinct (map fst g')" by auto
      from Cons.IH[OF m d] False p show ?thesis by auto
    qed
  qed
  show "set (concat (map snd (group_add g k a))) = insert a (set (concat (map snd g)))"
    using upd[OF _ assms] by (auto simp: group_add_def split: option.splits)
  show "distinct (concat (map snd g)) \<Longrightarrow> a \<notin> set (concat (map snd g))
           \<Longrightarrow> distinct (concat (map snd (group_add g k a)))"
    using upd[OF _ assms] by (auto simp: group_add_def split: option.splits)
qed

lemma collect_langs_props:
  assumes "collect_langs rs as g = Some g'" "distinct (map fst g)"
  shows "distinct (map fst g')"
    and "set (concat (map snd g')) \<subseteq> set (concat (map snd g)) \<union> set as"
    and "distinct (concat (map snd g) @ as) \<Longrightarrow> distinct (concat (map snd g'))"
  using assms
proof (induction as arbitrary: g)
  case Nil
  {
    case 1 then show ?case by simp
  next
    case 2 then show ?case by simp
  next
    case 3 then show ?case by simp
  }
next
  case (Cons a as)
  {
    case 1
    show ?case
    proof (cases "dget (r_fields (rs ! a)) ''lang''")
      case None
      with 1 Cons.IH(1)[of g] show ?thesis by simp
    next
      case (Some l)
      with 1 have c: "collect_langs rs as (group_add g l a) = Some g'"
        by (simp split: if_splits)
      from Cons.IH(1)[OF c group_add_props(1)[OF 1(2)]] show ?thesis .
    qed
  next
    case 2
    show ?case
    proof (cases "dget (r_fields (rs ! a)) ''lang''")
      case None
      with 2 Cons.IH(2)[of g] show ?thesis by auto
    next
      case (Some l)
      with 2 have c: "collect_langs rs as (group_add g l a) = Some g'"
        by (simp split: if_splits)
      from Cons.IH(2)[OF c group_add_props(1)[OF 2(2)]] group_add_props(2)[OF 2(2), where k = l and a = a]
      show ?thesis by auto
    qed
  next
    case 3
    show ?case
    proof (cases "dget (r_fields (rs ! a)) ''lang''")
      case None
      with 3 Cons.IH(3)[of g] show ?thesis by auto
    next
      case (Some l)
      with 3 have c: "collect_langs rs as (group_add g l a) = Some g'"
        by (simp split: if_splits)
      have d: "distinct (concat (map snd (group_add g l a)) @ as)"
        using 3(1) group_add_props(2,3)[OF 3(3), where k = l and a = a] by auto
      from Cons.IH(3)[OF d c group_add_props(1)[OF 3(3)]] show ?thesis .
    qed
  }
qed

lemma by_lang_props:
  assumes "by_lang rs sections g = Some g'" "distinct (map fst g)"
  shows "distinct (map fst g')"
    and "set (concat (map snd g')) \<subseteq> set (concat (map snd g)) \<union> set (concat sections)"
    and "distinct (concat (map snd g) @ concat sections) \<Longrightarrow> distinct (concat (map snd g'))"
  using assms
proof (induction sections arbitrary: g)
  case Nil
  {
    case 1 then show ?case by simp
  next
    case 2 then show ?case by simp
  next
    case 3 then show ?case by simp
  }
next
  case (Cons datas sections)
  {
    case 1
    then obtain g1 where c: "collect_langs rs datas g = Some g1"
      and b: "by_lang rs sections g1 = Some g'" by (auto split: option.splits)
    from Cons.IH(1)[OF b collect_langs_props(1)[OF c 1(2)]] show ?case .
  next
    case 2
    then obtain g1 where c: "collect_langs rs datas g = Some g1"
      and b: "by_lang rs sections g1 = Some g'" by (auto split: option.splits)
    from Cons.IH(2)[OF b collect_langs_props(1)[OF c 2(2)]] collect_langs_props(2)[OF c 2(2)]
    show ?case by auto
  next
    case 3
    then obtain g1 where c: "collect_langs rs datas g = Some g1"
      and b: "by_lang rs sections g1 = Some g'" by (auto split: option.splits)
    have d1: "distinct (concat (map snd g1))"
      using collect_langs_props(3)[OF c 3(3)] 3(1) by auto
    have d: "distinct (concat (map snd g1) @ concat sections)"
      using d1 collect_langs_props(2)[OF c 3(3)] 3(1) by auto
    from Cons.IH(3)[OF d b collect_langs_props(1)[OF c 3(3)]] show ?case .
  }
qed

subsection \<open>Topics\<close>

lemma share_conjugation_frame:
  assumes "share_conjugation datas a rs = Some rs'"
  shows "length rs' = length rs" and "r_topics (rs' ! b) = r_topics (rs ! b)"
proof -
  show "length rs' = length rs"
    using assms
    by (auto simp: share_conjugation_def Let_def split: if_splits option.splits)
  show "r_topics (rs' ! b) = r_topics (rs ! b)"
    using assms
    by (cases "a < length rs"; cases "b = a")
       (auto simp: share_conjugation_def Let_def list_update_beyond
             split: if_splits option.splits)
qed

lemma share_all_frame:
  assumes "share_all datas as rs = Some rs'"
  shows "length rs' = length rs \<and> r_topics (rs' ! b) = r_topics (rs ! b)"
  using assms
proof (induction as arbitrary: rs)
  case Nil
  then show ?case by simp
next
  case (Cons a as)
  then obtain rs1 where s: "share_conjugation datas a rs = Some rs1"
    and r: "share_all datas as rs1 = Some rs'" by (auto split: option.splits)
  from Cons.IH[OF r] share_conjugation_frame(1)[OF s] share_conjugation_frame(2)[OF s, of b] show ?case by simp
qed

lemma add_topics_nth:
  "length (add_topics T a rs) = length rs"
  "b \<noteq> a \<Longrightarrow> add_topics T a rs ! b = rs ! b"
  "a < length rs \<Longrightarrow> topics_of (add_topics T a rs ! a) = topics_of (rs ! a) @ T"
  "r_fields (add_topics T a rs ! b) = r_fields (rs ! b)"
proof -
  show "length (add_topics T a rs) = length rs"
    by (simp add: add_topics_def Let_def)
  show "b \<noteq> a \<Longrightarrow> add_topics T a rs ! b = rs ! b"
    by (simp add: add_topics_def Let_def)
  show "a < length rs \<Longrightarrow> topics_of (add_topics T a rs ! a) = topics_of (rs ! a) @ T"
    by (simp add: add_topics_def Let_def topics_of_def split: option.splits)
  show "r_fields (add_topics T a rs ! b) = r_fields (rs ! b)"
    by (cases "a < length rs"; cases "b = a") (simp_all add: add_topics_def Let_def list_update_beyond)
qed

lemma fold_add_topics:
  "length (fold (add_topics T) as rs) = length rs"
  "b \<notin> set as \<Longrightarrow> fold (add_topics T) as rs ! b = rs ! b"
  "distinct as \<Longrightarrow> b \<in> set as \<Longrightarrow> b < length rs
     \<Longrightarrow> topics_of (fold (add_topics T) as rs ! b) = topics_of (rs ! b) @ T"
  "r_fields (fold (add_topics T) as rs ! b) = r_fields (rs ! b)"
proof -
  show "length (fold (add_topics T) as rs) = length rs"
    by (induction as arbitrary: rs) (auto simp: add_topics_nth)
  show n: "b \<notin> set as \<Longrightarrow> fold (add_topics T) as rs ! b = rs ! b" for as rs
    by (induction as arbitrary: rs) (auto simp: add_topics_nth)
  show "distinct as \<Longrightarrow> b \<in> set as \<Longrightarrow> b < length rs
     \<Longrightarrow> topics_of (fold (add_topics T) as rs ! b) = topics_of (rs ! b) @ T"
  proof (induction as arbitrary: rs)
    case Nil
    then show ?case by simp
  next
    case (Cons a as)
    show ?case
    proof (cases "b = a")
      case True
      with Cons.prems have "b \<notin> set as" by simp
      from n[OF this] True Cons.prems show ?thesis by (simp add: add_topics_nth)
    next
      case False
      with Cons.prems Cons.IH[of "add_topics T a rs"] show ?thesis
        by (simp add: add_topics_nth)
    qed
  qed
  show "r_fields (fold (add_topics T) as rs ! b) = r_fields (rs ! b)"
    by (induction as arbitrary: rs) (auto simp: add_topics_nth)
qed

lemma mark_inaccurate_nth:
  "length (mark_inaccurate t ts) = length ts"
  "t < length ts \<Longrightarrow> dget (mark_inaccurate t ts ! t) ''inaccurate'' = Some (VBool True)"
  "dget (ts ! u) ''inaccurate'' = Some (VBool True)
     \<Longrightarrow> dget (mark_inaccurate t ts ! u) ''inaccurate'' = Some (VBool True)"
proof -
  show "length (mark_inaccurate t ts) = length ts" by (simp add: mark_inaccurate_def)
  show "t < length ts \<Longrightarrow> dget (mark_inaccurate t ts ! t) ''inaccurate'' = Some (VBool True)"
    by (simp add: mark_inaccurate_def dget_dset)
  show "dget (ts ! u) ''inaccurate'' = Some (VBool True)
     \<Longrightarrow> dget (mark_inaccurate t ts ! u) ''inaccurate'' = Some (VBool True)"
    by (cases "t < length ts"; cases "u = t") (simp_all add: mark_inaccurate_def dget_dset list_update_beyond)
qed

lemma fold_mark_inaccurate:
  "length (fold mark_inaccurate T ts) = length ts"
  "dget (ts ! u) ''inaccurate'' = Some (VBool True)
     \<Longrightarrow> dget (fold mark_inaccurate T ts ! u) ''inaccurate'' = Some (VBool True)"
  "t \<in> set T \<Longrightarrow> t < length ts
     \<Longrightarrow> dget (fold mark_inaccurate T ts ! t) ''inaccurate'' = Some (VBool True)"
proof -
  show "length (fold mark_inaccurate T ts) = length ts"
    by (induction T arbitrary: ts) (auto simp: mark_inaccurate_nth)
  show k: "dget (ts ! u) ''inaccurate'' = Some (VBool True)
     \<Longrightarrow> dget (fold mark_inaccurate T ts ! u) ''inaccurate'' = Some (VBool True)" for T ts u
    by (induction T arbitrary: ts) (auto simp: mark_inaccurate_nth)
  show "t \<in> set T \<Longrightarrow> t < length ts
     \<Longrightarrow> dget (fold mark_inaccurate T ts ! t) ''inaccurate'' = Some (VBool True)"
  proof (induction T arbitrary: ts)
    case Nil
    then show ?case by simp
  next
    case (Cons x T)
    show ?case
    proof (cases "t = x")
      case True
      with Cons.prems show ?thesis by (simp add: k mark_inaccurate_nth)
    next
      case False
      with Cons.prems Cons.IH[of "mark_inaccurate x ts"] show ?thesis
        by (simp add: mark_inaccurate_nth)
    qed
  qed
qed

lemma process_lang_frame:
  assumes "process_lang datas g st = Some st'"
  shows "length (recs st') = length (recs st)"
    and "length (tstore st') = length (tstore st)"
    and "b \<notin> set (butlast g) \<Longrightarrow> r_topics (recs st' ! b) = r_topics (recs st ! b)"
    and "dget (tstore st ! u) ''inaccurate'' = Some (VBool True)
           \<Longrightarrow> dget (tstore st' ! u) ''inaccurate'' = Some (VBool True)"
proof -
  from assms obtain rs where s: "share_all datas g (recs st) = Some rs"
    and st': "st' = propagate_topics g (st\<lparr>recs := rs\<rparr>)"
    by (auto simp: process_lang_def split: option.splits)
  note f = share_all_frame[OF s]
  show "length (recs st') = length (recs st)"
    using f by (simp add: st' propagate_topics_def Let_def fold_add_topics)
  show "length (tstore st') = length (tstore st)"
    by (simp add: st' propagate_topics_def Let_def fold_mark_inaccurate)
  show "b \<notin> set (butlast g) \<Longrightarrow> r_topics (recs st' ! b) = r_topics (recs st ! b)"
    using f[of b] by (simp add: st' propagate_topics_def Let_def fold_add_topics)
  show "dget (tstore st ! u) ''inaccurate'' = Some (VBool True)
           \<Longrightarrow> dget (tstore st' ! u) ''inaccurate'' = Some (VBool True)"
    by (simp add: st' propagate_topics_def Let_def fold_mark_inaccurate)
qed

lemma process_lang_topics:
  assumes "process_lang datas g st = Some st'"
    and "distinct g" "1 < length g" "a \<in> set (butlast g)" "a < length (recs st)"
  shows "topics_of (recs st' ! a) = topics_of (recs st ! a) @ topics_of (recs st ! last g)"
    and "t \<in> set (topics_of (recs st ! last g)) \<Longrightarrow> t < length (tstore st)
           \<Longrightarrow> dget (tstore st' ! t) ''inaccurate'' = Some (VBool True)"
proof -
  from assms(1) obtain rs where s: "share_all datas g (recs st) = Some rs"
    and st': "st' = propagate_topics g (st\<lparr>recs := rs\<rparr>)"
    by (auto simp: process_lang_def split: option.splits)
  note f = share_all_frame[OF s]
  have t: "topics_of (rs ! b) = topics_of (recs st ! b)" for b
    using f[of b] by (simp add: topics_of_def)
  have d: "distinct (butlast g)" using assms(2) by (rule distinct_butlast)
  show "topics_of (recs st' ! a) = topics_of (recs st ! a) @ topics_of (recs st ! last g)"
    using assms(3-5) f[of a] fold_add_topics(3)[OF d assms(4), of rs "topics_of (rs ! last g)"]
    by (simp add: st' propagate_topics_def Let_def t topics_of_def[symmetric])
  show "t \<in> set (topics_of (recs st ! last g)) \<Longrightarrow> t < length (tstore st)
           \<Longrightarrow> dget (tstore st' ! t) ''inaccurate'' = Some (VBool True)"
    using assms(3) t[of "last g"]
    by (simp add: st' propagate_topics_def Let_def fold_mark_inaccurate topics_of_def[symmetric])
qed

lemma process_langs_frame:
  assumes "process_langs datas gs st = Some st'"
  shows "length (recs st') = length (recs st) \<and> length (tstore st') = length (tstore st)
       \<and> (b \<notin> set (concat gs) \<longrightarrow> r_topics (recs st' ! b) = r_topics (recs st ! b))
       \<and> (dget (tstore st ! u) ''inaccurate'' = Some (VBool True)
             \<longrightarrow> dget (tstore st' ! u) ''inaccurate'' = Some (VBool True))"
  using assms
proof (induction gs arbitrary: st)
  case Nil
  then show ?case by simp
next
  case (Cons g gs)
  then obtain st1 where p: "process_lang datas g st = Some st1"
    and r: "process_langs datas gs st1 = Some st'" by (auto split: option.splits)
  note f = process_lang_frame[OF p]
  have "b \<notin> set g \<Longrightarrow> b \<notin> set (butlast g)" by (auto dest: in_set_butlastD)
  with Cons.IH[OF r] f(1,2) f(3)[of b] f(4)[of u] show ?case by auto
qed

lemma process_langs_append:
  "process_langs datas (xs @ ys) st =
     (case process_langs datas xs st of None \<Rightarrow> None | Some s1 \<Rightarrow> process_langs datas ys s1)"
  by (induction xs arbitrary: st) (auto split: option.splits)

text \<open>C9. After the post-processing of a page, in every language group with more than
  one record, every record but the last refers to its own earlier topics followed by the
  topics of the last record of the group, and each of these topic objects carries
  \<open>inaccurate = True\<close>. (The list is not stored when it is empty. The records are
  distinct objects and the references are to objects of the stores.)\<close>

theorem topics_propagated:
  assumes run: "parse_page_post sections st = Some (ret, st')"
    and dist: "distinct (concat sections)"
    and rng: "\<forall>a \<in> set (concat sections). a < length (recs st)"
    and trng: "\<forall>a \<in> set (concat sections). \<forall>t \<in> set (topics_of (recs st ! a)).
                 t < length (tstore st)"
    and g: "by_lang (recs st) sections [] = Some g"
    and grp: "(lang, ids) \<in> set g" "1 < length ids" "a \<in> set (butlast ids)"
  shows "topics_of (recs st' ! a) = topics_of (recs st ! a) @ topics_of (recs st ! last ids)
       \<and> (\<forall>t \<in> set (topics_of (recs st ! last ids)).
            dget (tstore st' ! t) ''inaccurate'' = Some (VBool True))
       \<and> topics_of (recs st' ! last ids) = topics_of (recs st ! last ids)"
proof -
  let ?datas = "if sections = [] then [] else last sections"
  let ?gs = "map snd g"
  from run g have pl: "process_langs ?datas ?gs st = Some st'"
    by (auto simp: parse_page_post_def split: option.splits)
  have dg: "distinct (concat ?gs)"
    using by_lang_props(3)[OF g] dist by simp
  have sub: "set (concat ?gs) \<subseteq> set (concat sections)"
    using by_lang_props(2)[OF g] by simp
  from grp(1) have "ids \<in> set ?gs" by force
  then obtain pre post where split: "?gs = pre @ ids # post"
    by (auto dest: split_list)
  from pl obtain s1 s2 where
    p1: "process_langs ?datas pre st = Some s1"
    and p2: "process_lang ?datas ids s1 = Some s2"
    and p3: "process_langs ?datas post s2 = Some st'"
    unfolding split by (auto simp: process_langs_append split: option.splits)
  from dg have d: "distinct ids" "set ids \<inter> set (concat pre) = {}"
    "set ids \<inter> set (concat post) = {}"
    unfolding split by auto
  from grp(2) have ne: "ids \<noteq> []" by auto
  have a_in: "a \<in> set ids" using grp(3) by (rule in_set_butlastD)
  have l_in: "last ids \<in> set ids" using ne by simp
  have l_nb: "last ids \<notin> set (butlast ids)"
    using d(1) ne by (metis append_butlast_last_id distinct_append disjoint_iff list.set_intros(1))
  have ids_sub: "set ids \<subseteq> set (concat sections)"
    using sub unfolding split by auto
  note f1 = process_langs_frame[OF p1]
  note f3 = process_langs_frame[OF p3]
  note f2 = process_lang_frame[OF p2]
  have a1: "r_topics (recs s1 ! a) = r_topics (recs st ! a)"
    using f1[of a] a_in d(2) by auto
  have l1: "r_topics (recs s1 ! last ids) = r_topics (recs st ! last ids)"
    using f1[of "last ids"] l_in d(2) by auto
  have len1: "length (recs s1) = length (recs st)" "length (tstore s1) = length (tstore st)"
    using f1[of a] by auto
  have a_lt: "a < length (recs s1)"
    using rng ids_sub a_in len1 by auto
  note t2 = process_lang_topics[OF p2 d(1) grp(2) grp(3) a_lt]
  have a3: "r_topics (recs st' ! a) = r_topics (recs s2 ! a)"
    using f3[of a] a_in d(3) by auto
  have l3: "r_topics (recs st' ! last ids) = r_topics (recs s2 ! last ids)"
    using f3[of "last ids"] l_in d(3) by auto
  have l2: "r_topics (recs s2 ! last ids) = r_topics (recs s1 ! last ids)"
    using f2(3)[OF l_nb] .
  have c1: "topics_of (recs st' ! a) = topics_of (recs st ! a) @ topics_of (recs st ! last ids)"
    using t2(1) a1 l1 a3 by (simp add: topics_of_def)
  have c2: "dget (tstore st' ! t) ''inaccurate'' = Some (VBool True)"
    if t: "t \<in> set (topics_of (recs st ! last ids))" for t
  proof -
    have "t < length (tstore s1)"
      using trng ids_sub l_in t len1 by auto
    moreover have "t \<in> set (topics_of (recs s1 ! last ids))"
      using t l1 by (simp add: topics_of_def)
    ultimately have "dget (tstore s2 ! t) ''inaccurate'' = Some (VBool True)"
      using t2(2) by simp
    then show ?thesis using f3[of _ t] by simp
  qed
  have c3: "topics_of (recs st' ! last ids) = topics_of (recs st ! last ids)"
    using l1 l2 l3 by (simp add: topics_of_def)
  from c1 c2 c3 show ?thesis by simp
qed

theorem topics_propagated_witness:
  "\<exists>ret st'.
     parse_page_post [[0, 1]]
       \<lparr>recs = [\<lparr>r_fields = [(VStr ''lang'', VStr ''English''), (VStr ''pos'', VStr ''noun'')],
                  r_topics = Some [0]\<rparr>,
                \<lparr>r_fields = [(VStr ''lang'', VStr ''English''), (VStr ''pos'', VStr ''verb'')],
                  r_topics = Some [1]\<rparr>],
         tstore = [[(VStr ''word'', VStr ''A'')], [(VStr ''word'', VStr ''B'')]]\<rparr>
       = Some (ret, st')
     \<and> topics_of (recs st' ! 0) = [0, 1]
     \<and> dget (tstore st' ! 1) ''inaccurate'' = Some (VBool True)
     \<and> topics_of (recs st' ! 1) = [1]"
proof -
  let ?S = "\<lparr>recs = [\<lparr>r_fields = [(VStr ''lang'', VStr ''English''), (VStr ''pos'', VStr ''noun'')],
                  r_topics = Some [0]\<rparr>,
                \<lparr>r_fields = [(VStr ''lang'', VStr ''English''), (VStr ''pos'', VStr ''verb'')],
                  r_topics = Some [1]\<rparr>],
         tstore = [[(VStr ''word'', VStr ''A'')], [(VStr ''word'', VStr ''B'')]]\<rparr>"
  have g: "by_lang (recs ?S) [[0, 1]] [] = Some [(VStr ''English'', [0, 1])]"
    by code_simp
  have "parse_page_post [[0, 1]] ?S \<noteq> None"
    by code_simp
  then obtain ret st' where run: "parse_page_post [[0, 1]] ?S = Some (ret, st')"
    by auto
  have "topics_of (recs st' ! 0) = topics_of (recs ?S ! 0) @ topics_of (recs ?S ! last [0, 1])
       \<and> (\<forall>t \<in> set (topics_of (recs ?S ! last [0, 1])).
            dget (tstore st' ! t) ''inaccurate'' = Some (VBool True))
       \<and> topics_of (recs st' ! last [0, 1]) = topics_of (recs ?S ! last [0, 1])"
    by (rule topics_propagated[OF run _ _ _ g, of "VStr ''English''"])
       (simp_all add: topics_of_def)
  then have "topics_of (recs st' ! 0) = [0, 1]
     \<and> dget (tstore st' ! 1) ''inaccurate'' = Some (VBool True)
     \<and> topics_of (recs st' ! 1) = [1]"
    by (simp add: topics_of_def)
  with run show ?thesis by blast
qed

subsection \<open>Conjugation sharing\<close>


















text \<open>Outside the last language section nothing is shared: the loop looks for a donor
  in \<^verbatim>\<open>datas\<close>, which after the loop over the sections is the list of the last
  section only. Here an English noun and an English adjective with conjugation data are
  followed by a Finnish section; the noun is returned without conjugation data.\<close>

lemma conjugation_not_shared_before_last_section:
  "parse_page_post [[0, 1], [2]]
     \<lparr>recs = [\<lparr>r_fields = [(VStr ''lang'', VStr ''English''), (VStr ''pos'', VStr ''noun'')],
                r_topics = None\<rparr>,
              \<lparr>r_fields = [(VStr ''lang'', VStr ''English''), (VStr ''pos'', VStr ''adj''),
                            (VStr ''conjugation'', VList [VStr ''X''])],
                r_topics = None\<rparr>,
              \<lparr>r_fields = [(VStr ''lang'', VStr ''Finnish''), (VStr ''pos'', VStr ''noun'')],
                r_topics = None\<rparr>],
       tstore = []\<rparr>
   = Some ([0, 1, 2],
     \<lparr>recs = [\<lparr>r_fields = [(VStr ''lang'', VStr ''English''), (VStr ''pos'', VStr ''noun'')],
                r_topics = None\<rparr>,
              \<lparr>r_fields = [(VStr ''lang'', VStr ''English''), (VStr ''pos'', VStr ''adj''),
                            (VStr ''conjugation'', VList [VStr ''X''])],
                r_topics = None\<rparr>,
              \<lparr>r_fields = [(VStr ''lang'', VStr ''Finnish''), (VStr ''pos'', VStr ''noun'')],
                r_topics = None\<rparr>],
       tstore = []\<rparr>)"
  by code_simp

subsection \<open>Lists shared between records\<close>

text \<open>The two senses of the noun lack the key \<open>synonyms\<close> and both take the list
  object of the part of speech. Each of them is then merged into the etymology and
  extends that one list by the synonyms of the etymology: both records end with them
  twice.\<close>

lemma shared_list_extended_by_each_record:
  "parse_language example_ext example_config ''cat'' synonyms_twice ''English'' ''en'' =
     Some ([[(VStr ''glosses'', VList [VStr ''an animal'']),
             (VStr ''pos'', VStr ''noun''),
             (VStr ''synonyms'',
              VList [VDict [(VStr ''word'', VStr ''bar'')], VDict [(VStr ''word'', VStr ''foo'')],
                     VDict [(VStr ''word'', VStr ''foo'')]]),
             (VStr ''word'', VStr ''cat''), (VStr ''lang'', VStr ''English''),
             (VStr ''lang_code'', VStr ''en'')],
            [(VStr ''glosses'', VList [VStr ''a person'']),
             (VStr ''pos'', VStr ''noun''),
             (VStr ''synonyms'',
              VList [VDict [(VStr ''word'', VStr ''bar'')], VDict [(VStr ''word'', VStr ''foo'')],
                     VDict [(VStr ''word'', VStr ''foo'')]]),
             (VStr ''word'', VStr ''cat''), (VStr ''lang'', VStr ''English''),
             (VStr ''lang_code'', VStr ''en'')]],
           [])"
  by code_simp

subsection \<open>The target of a pronunciation section\<close>

text \<open>C5, as the code has it. A \<open>Pronunciation\<close> heading never writes to the sense
  or the part-of-speech buffer. Between the etymology buffer and the page base the code
  chooses by the truth value of \<^verbatim>\<open>etym_data\<close>: the etymology buffer when it already
  holds a key, the page base when it is empty, whether or not an \<open>Etymology\<close> section
  is open (the stack plays no part).\<close>

theorem pronunciation_target:
  assumes "is_sublevel k"
    and "render e no_hook as = ''Pronunciation''"
    and "capture_pronunciation cfg"
    and "pronunciation_appends e cs = Some ws"
  shows "\<exists>st'. process_node e cfg (WikiNode k a as cs) st = Some st'
     \<and> sense_data st' = sense_data st \<and> pos_data st' = pos_data st
     \<and> pos_datas st' = pos_datas st \<and> etym_datas st' = etym_datas st
     \<and> page_datas st' = page_datas st \<and> stack st' = stack st
     \<and> (if etym_data st \<noteq> []
         then etym_data st' = apply_appends ws (etym_data st) \<and> base st' = base st
         else base st' = apply_appends ws (base st) \<and> etym_data st' = [])"
  using assms
  by (simp add: parse_pronunciation_def Let_def)

text \<open>An \<open>Etymology 1\<close> section is open and nothing has been written to it yet: the
  pronunciation goes to the page base.\<close>

theorem pronunciation_target_witness:
  "is_sublevel LEVEL4
   \<and> render example_ext no_hook [Text ''Pronunciation''] = ''Pronunciation''
   \<and> capture_pronunciation example_config
   \<and> pronunciation_appends example_ext [Text ''/kat/'']
       = Some [(''sounds'', VDict [(VStr ''other'', VStr ''/kat/'')])]
   \<and> stack etymology_open = [''TOP'', ''Etymology 1'']
   \<and> (\<exists>st'. process_node example_ext example_config
               (WikiNode LEVEL4 [] [Text ''Pronunciation''] [Text ''/kat/'']) etymology_open
             = Some st'
        \<and> etym_data st' = []
        \<and> dget (base st') ''sounds'' = Some (VList [VDict [(VStr ''other'', VStr ''/kat/'')]]))"
proof -
  have h1: "is_sublevel LEVEL4" by simp
  have h2: "render example_ext no_hook [Text ''Pronunciation''] = ''Pronunciation''"
    by (simp add: example_ext_def text_of_def)
  have h3: "capture_pronunciation example_config" by (simp add: example_config_def)
  have h4: "pronunciation_appends example_ext [Text ''/kat/'']
       = Some [(''sounds'', VDict [(VStr ''other'', VStr ''/kat/'')])]"
    by code_simp
  have e: "etym_data etymology_open = []" and s: "stack etymology_open = [''TOP'', ''Etymology 1'']"
    by (simp_all add: etymology_open_def)
  have b: "dget (apply_appends [(''sounds'', VDict [(VStr ''other'', VStr ''/kat/'')])]
                  (base etymology_open)) ''sounds''
      = Some (VList [VDict [(VStr ''other'', VStr ''/kat/'')]])"
    by code_simp
  from pronunciation_target[OF h1 h2 h3 h4, where st = etymology_open and a = "[]"]
  obtain st' where
    r: "process_node example_ext example_config
               (WikiNode LEVEL4 [] [Text ''Pronunciation''] [Text ''/kat/'']) etymology_open
             = Some st'"
    and t: "base st' = apply_appends [(''sounds'', VDict [(VStr ''other'', VStr ''/kat/'')])]
                         (base etymology_open)"
       "etym_data st' = []"
    unfolding e by auto
  from r t b have "\<exists>st'. process_node example_ext example_config
               (WikiNode LEVEL4 [] [Text ''Pronunciation''] [Text ''/kat/'']) etymology_open
             = Some st'
        \<and> etym_data st' = []
        \<and> dget (base st') ''sounds'' = Some (VList [VDict [(VStr ''other'', VStr ''/kat/'')]])"
    by auto
  with h1 h2 h3 h4 s show ?thesis by blast
qed

text \<open>C5, as stated, fails on a page with two etymologies of which the first has a
  pronunciation section before its part of speech: the pronunciation is found in the
  record of the second etymology as well, because it was written to the page base.\<close>

theorem pronunciation_reaches_other_etymology:
  "parse_language example_ext example_config ''cat'' two_etymologies ''English'' ''en'' =
     Some ([[(VStr ''glosses'', VList [VStr ''an animal'']),
             (VStr ''pos'', VStr ''noun''), (VStr ''word'', VStr ''cat''),
             (VStr ''lang'', VStr ''English''), (VStr ''lang_code'', VStr ''en''),
             (VStr ''sounds'', VList [VDict [(VStr ''other'', VStr ''/kat/'')]])],
            [(VStr ''glosses'', VList [VStr ''a whip'']),
             (VStr ''pos'', VStr ''noun''), (VStr ''word'', VStr ''cat''),
             (VStr ''lang'', VStr ''English''), (VStr ''lang_code'', VStr ''en''),
             (VStr ''sounds'', VList [VDict [(VStr ''other'', VStr ''/kat/'')]])]],
           [])"
  by code_simp

subsection \<open>Sections without a sense list\<close>

lemma scan_pos_no_list:
  "\<forall>n \<in> set cs. \<not> is_list_node n \<Longrightarrow> snd (scan_pos cs pre fp) = None"
  by (induction cs pre fp rule: scan_pos.induct)
     (auto simp: is_list_node_def split: list.splits)

lemma share_lists_prefix: "prefix cs (snd (share_lists d cs))"
proof (induction d arbitrary: cs)
  case Nil
  then show ?case by simp
next
  case (Cons kv d)
  obtain k v where kv: "kv = (k, v)" by (cases kv)
  show ?case
  proof (cases v)
    case (VList xs)
    have "prefix cs (cs @ [xs])" by simp
    also have "prefix (cs @ [xs]) (snd (share_lists d (cs @ [xs])))" by (rule Cons.IH)
    finally show ?thesis by (auto simp: kv VList split: prod.splits)
  qed (use Cons.IH[of cs] in \<open>auto simp: kv split: prod.splits\<close>)
qed

lemma push_pos_no_senses:
  assumes "sense_data st = []" "pos_datas st = []"
  shows "\<exists>st1. push_pos st = Some st1 \<and> sense_data st1 = [] \<and> pos_datas st1 = []
     \<and> pos_data st1 = [] \<and> etym_datas st1 = etym_datas st \<and> page_datas st1 = page_datas st
     \<and> stack st1 = stack st \<and> diags st1 = diags st \<and> prefix (cells st) (cells st1)
     \<and> base st1 = base st \<and> etym_data st1 = etym_data st"
  using assms share_lists_prefix[of "cells st" "pos_data st"]
  by (auto simp: push_pos_def push_sense_def merge_scope_def split: prod.splits)

lemma same_records_trans:
  "same_records a b \<Longrightarrow> same_records b c \<Longrightarrow> same_records a c"
  by (auto simp: same_records_def)


lemma push_pos_fields:
  assumes "push_pos st = Some st1"
  shows "sense_data st1 = []" "pos_datas st1 = []" "pos_data st1 = []"
    "base st1 = base st" "etym_data st1 = etym_data st" "page_datas st1 = page_datas st"
    "stack st1 = stack st" "section_counts st1 = section_counts st"
  using assms
  by (auto simp: push_pos_def push_sense_def Let_def split: option.splits if_splits)

lemma pos_no_list_step:
  assumes k: "is_sublevel k"
    and t: "render e no_hook as = t" "t \<noteq> ''Pronunciation''" "\<not> startswith t ''Etymology''"
    and pm: "pos_map e (lower t) = Some dt" "pi_pos dt = Some p"
    and sc: "snd (scan_pos cs [] True) = None"
    and pp: "push_pos st = Some st1"
    and st: "stack st \<noteq> []"
    and ch: "\<And>s. sense_data s = [] \<Longrightarrow> pos_datas s = [] \<Longrightarrow> stack s \<noteq> [] \<Longrightarrow>
               \<exists>s'. process_children e cfg cs s = Some s' \<and> same_records s s'"
  shows "\<exists>st' ds. process_node e cfg (WikiNode k a as cs) st = Some st'
     \<and> sense_data st' = [] \<and> pos_datas st' = []
     \<and> etym_datas st' = etym_datas st1 \<and> page_datas st' = page_datas st1
     \<and> stack st' = stack st1 \<and> prefix (cells st1) (cells st')
     \<and> diags st' = diags st1 @ pos_warnings t dt
                     @ [Warning (p @ '': no sense list found'')] @ ds"
proof -
  note f = push_pos_fields[OF pp]
  let ?w = "Warning (p @ '': no sense list found'')"
  define s where "s = st1\<lparr>
      pos_data := dset (case pi_tags dt of None \<Rightarrow> pos_data st1
                        | Some tags \<Rightarrow> data_extend (pos_data st1) ''tags'' tags) ''pos'' (VStr p),
      diags := diags st1 @ pos_warnings t dt @ [?w],
      stack := stack st1 @ [p]\<rparr>"
  have sp: "scan_pos cs [] True = (fst (scan_pos cs [] True), None)"
    using sc by (metis prod.collapse)
  have ps: "parse_part_of_speech e cs p st2 =
      Some (st2\<lparr>pos_data := dset (pos_data st2) ''pos'' (VStr p),
                diags := diags st2 @ [?w]\<rparr>)" for st2
    unfolding parse_part_of_speech_def Let_def by (subst sp) simp
  have "sense_data s = []" "pos_datas s = []" "stack s \<noteq> []"
    by (simp_all add: s_def f)
  from ch[OF this] obtain s' where
    run: "process_children e cfg cs s = Some s'" and sr: "same_records s s'" by blast
  from sr obtain ds where ds: "diags s' = diags s @ ds"
    by (auto simp: same_records_def prefix_def)
  have node: "process_node e cfg (WikiNode k a as cs) st = Some (s'\<lparr>stack := butlast (stack s')\<rparr>)"
    using k t pm pp run
    by (simp add: Let_def ps s_def)
  show ?thesis
    apply (rule exI[of _ "s'\<lparr>stack := butlast (stack s')\<rparr>"], rule exI[of _ ds])
    using sr ds
    apply (simp add: node same_records_def s_def del: process_node.simps)
    done
qed


lemma same_records_refl:
  "sense_data st = [] \<Longrightarrow> pos_datas st = [] \<Longrightarrow> same_records st st"
  by (simp add: same_records_def)

lemma leaf_section:
  assumes "is_sublevel k" "render e no_hook as = t" "t \<noteq> ''Pronunciation''"
    "\<not> startswith t ''Etymology''" "pos_map e (lower t) = None" "leaf_title t"
    "sense_data st = []" "pos_datas st = []" "stack st \<noteq> []"
  shows "\<exists>st'. process_node e cfg (WikiNode k a as cs) st = Some st' \<and> same_records st st'"
  using assms
  by (auto simp: Let_def leaf_title_def append_to_scope_def parse_declension_conjugation_def
                 same_records_def)

lemma pronunciation_section:
  assumes "is_sublevel k" "render e no_hook as = ''Pronunciation''"
    "\<not> capture_pronunciation cfg \<or> pronunciation_appends e cs \<noteq> None"
    "sense_data st = []" "pos_datas st = []"
  shows "\<exists>st'. process_node e cfg (WikiNode k a as cs) st = Some st' \<and> same_records st st'"
  using assms
  by (auto simp: Let_def parse_pronunciation_def same_records_def)

lemma other_section:
  assumes "is_sublevel k" "render e no_hook as = t" "t \<noteq> ''Pronunciation''"
    "\<not> startswith t ''Etymology''" "pos_map e (lower t) = None" "\<not> leaf_title t"
    "sense_data st = []" "pos_datas st = []"
    and ch: "\<And>s. sense_data s = [] \<Longrightarrow> pos_datas s = [] \<Longrightarrow> stack s \<noteq> [] \<Longrightarrow>
               \<exists>s'. process_children e cfg cs s = Some s' \<and> same_records s s'"
  shows "\<exists>st'. process_node e cfg (WikiNode k a as cs) st = Some st' \<and> same_records st st'"
proof -
  define s where "s = st\<lparr>section_counts := section_counts st @ [t], stack := stack st @ [t]\<rparr>"
  have "sense_data s = []" "pos_datas s = []" "stack s \<noteq> []"
    using assms(7,8) by (simp_all add: s_def)
  from ch[OF this] obtain s' where
    run: "process_children e cfg cs s = Some s'" and sr: "same_records s s'" by blast
  have node: "process_node e cfg (WikiNode k a as cs) st = Some (s'\<lparr>stack := butlast (stack s')\<rparr>)"
    using assms(1-6) run
    by (simp add: Let_def s_def leaf_title_def)
  show ?thesis
    using sr by (simp add: node same_records_def s_def del: process_node.simps)
qed

lemma quiet_walk:
  shows "quiet_nodes e cfg ns \<Longrightarrow> sense_data st = [] \<Longrightarrow> pos_datas st = [] \<Longrightarrow>
           stack st \<noteq> [] \<Longrightarrow>
           \<exists>st'. process_children e cfg ns st = Some st' \<and> same_records st st'"
    and "quiet_node e cfg n \<Longrightarrow> sense_data st = [] \<Longrightarrow> pos_datas st = [] \<Longrightarrow>
           stack st \<noteq> [] \<Longrightarrow>
           \<exists>st'. process_node e cfg n st = Some st' \<and> same_records st st'"
proof (induction e cfg ns and e cfg n arbitrary: st and st rule: quiet_nodes_quiet_node.induct)
  case (1 e cfg)
  then show ?case by (simp add: same_records_def)
next
  case (2 e cfg n ns)
  from "2.prems" have qn: "quiet_node e cfg n" and qs: "quiet_nodes e cfg ns" by simp_all
  from "2.IH"(1)[OF qn "2.prems"(2-4)] obtain s1 where
    r1: "process_node e cfg n st = Some s1" and sr1: "same_records st s1" by blast
  from sr1 "2.prems"(4) have p: "sense_data s1 = []" "pos_datas s1 = []" "stack s1 \<noteq> []"
    by (simp_all add: same_records_def)
  from "2.IH"(2)[OF qs p] obtain s2 where
    r2: "process_children e cfg ns s1 = Some s2" and sr2: "same_records s1 s2" by blast
  show ?case
    using r1 r2 same_records_trans[OF sr1 sr2] by (simp del: process_node.simps)
next
  case (3 e cfg s)
  then show ?case by (simp add: same_records_def)
next
  case (4 e cfg k a as cs)
  let ?t = "render e no_hook as"
  note q = "4.prems"(1)
  show ?case
  proof (cases "is_sublevel k")
    case False
    then show ?thesis using "4.prems" by (simp add: same_records_def)
  next
    case sub: True
    show ?thesis
    proof (cases "?t = ''Pronunciation''")
      case True
      with q sub have "\<not> capture_pronunciation cfg \<or> pronunciation_appends e cs \<noteq> None"
        by simp
      from pronunciation_section[OF sub True this "4.prems"(2,3)] show ?thesis .
    next
      case np: False
      from q sub np have ne: "\<not> startswith ?t ''Etymology''"
        by (auto split: if_splits)
      show ?thesis
      proof (cases "pos_map e (lower ?t)")
        case None
        show ?thesis
        proof (cases "leaf_title ?t")
          case True
          from leaf_section[OF sub refl np ne None True "4.prems"(2-4)] show ?thesis .
        next
          case False
          with q sub np ne None have qc: "quiet_nodes e cfg cs" by simp
          have ch: "\<exists>s'. process_children e cfg cs s = Some s' \<and> same_records s s'"
            if "sense_data s = []" "pos_datas s = []" "stack s \<noteq> []" for s
            using "4.IH"(1)[OF _ np ne None qc that] sub by simp
          from other_section[OF sub refl np ne None False "4.prems"(2,3) ch] show ?thesis .
        qed
      next
        case (Some dt)
        with q sub np ne obtain p where p: "pi_pos dt = Some p"
          and sc: "snd (scan_pos cs [] True) = None" and qc: "quiet_nodes e cfg cs"
          by auto
        have ch: "\<exists>s'. process_children e cfg cs s = Some s' \<and> same_records s s'"
          if "sense_data s = []" "pos_datas s = []" "stack s \<noteq> []" for s
          using "4.IH"(2)[OF _ np ne Some qc that] sub by simp
        from push_pos_no_senses[OF "4.prems"(2,3)] obtain st1 where
          pp: "push_pos st = Some st1" and f: "etym_datas st1 = etym_datas st"
            "page_datas st1 = page_datas st" "stack st1 = stack st" "diags st1 = diags st"
            "prefix (cells st) (cells st1)"
          by blast
        from pos_no_list_step[OF sub refl np ne Some p sc pp "4.prems"(4) ch]
        obtain st' ds where
          r: "process_node e cfg (WikiNode k a as cs) st = Some st'"
          and g: "sense_data st' = []" "pos_datas st' = []"
            "etym_datas st' = etym_datas st1" "page_datas st' = page_datas st1"
            "stack st' = stack st1" "prefix (cells st1) (cells st')"
            "diags st' = diags st1 @ pos_warnings ?t dt
                     @ [Warning (p @ '': no sense list found'')] @ ds"
          by blast
        have "same_records st st'"
          using f g by (auto simp: same_records_def)
        with r show ?thesis by blast
      qed
    qed
  qed
qed


lemma merge_scope_Nil: "\<exists>cs'. merge_scope [] parent cs = Some ([], cs', [])"
  by (simp add: merge_scope_def split: prod.splits)

lemma push_etym_no_records:
  assumes "sense_data st = []" "pos_datas st = []" "etym_datas st = []"
  shows "\<exists>st2. push_etym st = Some st2 \<and> page_datas st2 = page_datas st
     \<and> diags st2 = diags st \<and> base st2 = base st"
proof -
  from push_pos_no_senses[OF assms(1,2)] obtain st1 where
    pp: "push_pos st = Some st1" and f: "etym_datas st1 = etym_datas st"
      "page_datas st1 = page_datas st" "diags st1 = diags st" "base st1 = base st"
    by blast
  from merge_scope_Nil[of "etym_data st1" "cells st1"] obtain cs' where
    m: "merge_scope [] (etym_data st1) (cells st1) = Some ([], cs', [])" by blast
  show ?thesis
    using pp f m assms(3) by (simp add: push_etym_def)
qed

text \<open>C10. A part-of-speech section in which the loop of \<^verbatim>\<open>parse_part_of_speech\<close>
  finds no list (in particular a section none of whose children is a list), whatever else
  it holds below it (translations, linkages, inflection tables, a pronunciation, notes
  and other subsections, also further part-of-speech headings without a sense list),
  short of an etymology heading or a part of speech with a sense list, which are sections
  with records of their own: the section adds no record. After it both buffers of senses
  are empty and the records collected so far are those of before, untouched; the next
  \<^verbatim>\<open>push_pos\<close> empties the part-of-speech buffer without adding a record, since
  there is no sense to merge it into. The diagnostics of the section are those of the
  table entry, then the warning that no sense list was found, then those of its
  subsections. A language section made of this one section returns no record.\<close>

theorem pos_without_sense_list_emits_nothing:
  assumes "is_sublevel k"
    and "render e no_hook as = t"
    and "t \<noteq> ''Pronunciation''" and "\<not> startswith t ''Etymology''"
    and "pos_map e (lower t) = Some dt" and "pi_pos dt = Some p"
    and "snd (scan_pos cs [] True) = None"
    and "quiet_nodes e cfg cs"
    and "push_pos st = Some st1" and "stack st \<noteq> []"
  shows "(\<exists>st' ds. process_node e cfg (WikiNode k a as cs) st = Some st'
       \<and> sense_data st' = [] \<and> pos_datas st' = []
       \<and> etym_datas st' = etym_datas st1 \<and> page_datas st' = page_datas st1
       \<and> prefix (cells st1) (cells st')
       \<and> diags st' = diags st1 @ pos_warnings t dt
                       @ [Warning (p @ '': no sense list found'')] @ ds
       \<and> (\<exists>st''. push_pos st' = Some st'' \<and> pos_data st'' = []
              \<and> sense_data st'' = [] \<and> pos_datas st'' = []
              \<and> etym_datas st'' = etym_datas st1 \<and> page_datas st'' = page_datas st1
              \<and> diags st'' = diags st'))
     \<and> (\<exists>ds. parse_language e cfg title [WikiNode k a as cs] language lang_code =
               Some ([], pos_warnings t dt @ [Warning (p @ '': no sense list found'')] @ ds))"
proof -
  let ?n = "WikiNode k a as cs"
  let ?w = "Warning (p @ '': no sense list found'')"
  have ch: "\<exists>s'. process_children e cfg cs s = Some s' \<and> same_records s s'"
    if "sense_data s = []" "pos_datas s = []" "stack s \<noteq> []" for s
    by (rule quiet_walk(1)[OF assms(8) that])
  have step: "\<exists>st' ds. process_node e cfg ?n s = Some st'
     \<and> sense_data st' = [] \<and> pos_datas st' = []
     \<and> etym_datas st' = etym_datas s1 \<and> page_datas st' = page_datas s1
     \<and> stack st' = stack s1 \<and> prefix (cells s1) (cells st')
     \<and> diags st' = diags s1 @ pos_warnings t dt @ [?w] @ ds"
    if "push_pos s = Some s1" "stack s \<noteq> []" for s s1
    by (rule pos_no_list_step[OF assms(1-7) that ch])
  from step[OF assms(9,10)] obtain st' ds where
    r: "process_node e cfg ?n st = Some st'"
    and g: "sense_data st' = []" "pos_datas st' = []"
      "etym_datas st' = etym_datas st1" "page_datas st' = page_datas st1"
      "prefix (cells st1) (cells st')"
      "diags st' = diags st1 @ pos_warnings t dt @ [?w] @ ds"
    by blast
  from push_pos_no_senses[OF g(1,2)] obtain st'' where
    pp: "push_pos st' = Some st''" and h: "sense_data st'' = []" "pos_datas st'' = []"
      "pos_data st'' = []" "etym_datas st'' = etym_datas st'" "page_datas st'' = page_datas st'"
      "diags st'' = diags st'"
    by blast
  have first: "\<exists>st' ds. process_node e cfg ?n st = Some st'
       \<and> sense_data st' = [] \<and> pos_datas st' = []
       \<and> etym_datas st' = etym_datas st1 \<and> page_datas st' = page_datas st1
       \<and> prefix (cells st1) (cells st')
       \<and> diags st' = diags st1 @ pos_warnings t dt @ [?w] @ ds
       \<and> (\<exists>st''. push_pos st' = Some st'' \<and> pos_data st'' = []
              \<and> sense_data st'' = [] \<and> pos_datas st'' = []
              \<and> etym_datas st'' = etym_datas st1 \<and> page_datas st'' = page_datas st1
              \<and> diags st'' = diags st')"
    using r g pp h by auto
  let ?st0 = "\<lparr>base = [(VStr ''word'', VStr title), (VStr ''lang'', VStr language),
                        (VStr ''lang_code'', VStr lang_code)],
               sense_data = [], pos_data = [], etym_data = [], pos_datas = [],
               etym_datas = [], page_datas = [], cells = [], stack = [''TOP''], diags = [],
               section_counts = []\<rparr>"
  from push_pos_no_senses[of ?st0] obtain s1 where
    p0: "push_pos ?st0 = Some s1" and f0: "etym_datas s1 = []" "page_datas s1 = []"
      "diags s1 = []" "stack s1 = [''TOP'']"
    by auto
  from step[OF p0] obtain t' ds' where
    r0: "process_node e cfg ?n ?st0 = Some t'"
    and g0: "sense_data t' = []" "pos_datas t' = []" "etym_datas t' = []"
      "page_datas t' = []" "diags t' = pos_warnings t dt @ [?w] @ ds'"
    using f0 by auto
  from push_etym_no_records[of "t'\<lparr>stack := butlast (stack t')\<rparr>"] g0 obtain t2 where
    pe: "push_etym (t'\<lparr>stack := butlast (stack t')\<rparr>) = Some t2"
    and g2: "page_datas t2 = []" "diags t2 = pos_warnings t dt @ [?w] @ ds'"
    by auto
  from merge_scope_Nil[of "base t2" "cells t2"] obtain cs' where
    m: "merge_scope [] (base t2) (cells t2) = Some ([], cs', [])" by blast
  have second: "parse_language e cfg title [?n] language lang_code =
      Some ([], pos_warnings t dt @ [?w] @ ds')"
    unfolding parse_language_def Let_def
    by (simp add: r0 pe g2 m del: process_node.simps)
  from first second show ?thesis by blast
qed


theorem pos_without_sense_list_emits_nothing_witness:
  "is_sublevel LEVEL3
   \<and> render example_ext no_hook [Text ''Noun''] = ''Noun''
   \<and> pos_map example_ext (lower ''Noun'')
       = Some \<lparr>pi_pos = Some ''noun'', pi_tags = None, pi_warning = None, pi_error = None\<rparr>
   \<and> snd (scan_pos no_list_section [] True) = None
   \<and> quiet_nodes example_ext example_config no_list_section
   \<and> push_pos verb_pending = Some verb_flushed
   \<and> (\<exists>st'. process_node example_ext example_config
               (WikiNode LEVEL3 [] [Text ''Noun''] no_list_section) verb_pending = Some st'
        \<and> sense_data st' = [] \<and> pos_datas st' = []
        \<and> etym_datas st' = [[(VStr ''glosses'', Own (VList [VStr ''to hoist''])),
                               (VStr ''pos'', Own (VStr ''verb''))]]
        \<and> page_datas st' = []
        \<and> pos_data st' =
            [(VStr ''pos'', VStr ''noun''),
             (VStr ''conjugation'',
              VList [VDict [(VInt 1, VStr ''kal''),
                            (VStr ''template_name'', VStr ''fi-decl-kala'')]]),
             (VStr ''synonyms'', VList [VDict [(VStr ''word'', VStr ''moggy'')]])]
        \<and> diags st' = [Warning ''noun: no sense list found'']
        \<and> (\<exists>st''. push_pos st' = Some st'' \<and> pos_data st'' = [] \<and> pos_datas st'' = []
               \<and> etym_datas st'' = [[(VStr ''glosses'', Own (VList [VStr ''to hoist''])),
                                       (VStr ''pos'', Own (VStr ''verb''))]]))
   \<and> parse_language example_ext example_config ''cat''
        [WikiNode LEVEL3 [] [Text ''Noun''] no_list_section] ''English'' ''en''
       = Some ([], [Warning ''noun: no sense list found''])"
proof -
  let ?dt = "\<lparr>pi_pos = Some ''noun'', pi_tags = None, pi_warning = None, pi_error = None\<rparr>"
  let ?n = "WikiNode LEVEL3 [] [Text ''Noun''] no_list_section"
  have h1: "is_sublevel LEVEL3" by simp
  have h2: "render example_ext no_hook [Text ''Noun''] = ''Noun''"
    by (simp add: example_ext_def text_of_def)
  have h3: "''Noun'' \<noteq> ''Pronunciation''" by simp
  have h4: "\<not> startswith ''Noun'' ''Etymology''" by (simp add: startswith_def)
  have h5: "pos_map example_ext (lower ''Noun'') = Some ?dt" by code_simp
  have h6: "pi_pos ?dt = Some ''noun''" by simp
  have h7: "snd (scan_pos no_list_section [] True) = None" by code_simp
  have h8: "quiet_nodes example_ext example_config no_list_section" by code_simp
  have h9: "push_pos verb_pending = Some verb_flushed" by code_simp
  have h10: "stack verb_pending \<noteq> []" by (simp add: verb_pending_def)
  have fl: "etym_datas verb_flushed = [[(VStr ''glosses'', Own (VList [VStr ''to hoist''])),
                               (VStr ''pos'', Own (VStr ''verb''))]]"
     "page_datas verb_flushed = []"
    by (simp_all add: verb_flushed_def verb_pending_def)
  have run: "process_node example_ext example_config ?n verb_pending =
      Some \<lparr>base = [(VStr ''word'', VStr ''cat''), (VStr ''lang'', VStr ''English''),
              (VStr ''lang_code'', VStr ''en''),
              (VStr ''sounds'', VList [VDict [(VStr ''other'', VStr ''/kat/'')]])],
            sense_data = [],
            pos_data = [(VStr ''pos'', VStr ''noun''),
              (VStr ''conjugation'',
               VList [VDict [(VInt 1, VStr ''kal''),
                             (VStr ''template_name'', VStr ''fi-decl-kala'')]]),
              (VStr ''synonyms'', VList [VDict [(VStr ''word'', VStr ''moggy'')]])],
            etym_data = [], pos_datas = [],
            etym_datas = [[(VStr ''glosses'', Own (VList [VStr ''to hoist''])),
                           (VStr ''pos'', Own (VStr ''verb''))]],
            page_datas = [], cells = [], stack = [''TOP''],
            diags = [Warning ''noun: no sense list found''],
            section_counts = [''Usage notes'']\<rparr>"
    by code_simp
  have pl: "parse_language example_ext example_config ''cat'' [?n] ''English'' ''en''
       = Some ([], [Warning ''noun: no sense list found''])"
    by code_simp
  note inst = pos_without_sense_list_emits_nothing[OF h1 h2 h3 h4 h5 h6 h7 h8 h9 h10,
      where a = "[]" and title = "''cat''" and language = "''English''"
        and lang_code = "''en''"]
  from inst obtain st' where
    r: "process_node example_ext example_config ?n verb_pending = Some st'"
    and a: "sense_data st' = []" "pos_datas st' = []"
      "etym_datas st' = etym_datas verb_flushed" "page_datas st' = page_datas verb_flushed"
    and d: "\<exists>st''. push_pos st' = Some st'' \<and> pos_data st'' = [] \<and> pos_datas st'' = []
              \<and> etym_datas st'' = etym_datas verb_flushed"
    by blast
  from r run have b: "pos_data st' =
            [(VStr ''pos'', VStr ''noun''),
             (VStr ''conjugation'',
              VList [VDict [(VInt 1, VStr ''kal''),
                            (VStr ''template_name'', VStr ''fi-decl-kala'')]]),
             (VStr ''synonyms'', VList [VDict [(VStr ''word'', VStr ''moggy'')]])]"
    and c: "diags st' = [Warning ''noun: no sense list found'']"
    by auto
  show ?thesis
    using h1 h2 h5 h7 h8 h9 r a b c d pl unfolding fl by blast
qed

end
